theory Spec2Isabelle
  imports Complex_Main "HOL-Library.AList"
begin

section \<open>The masked-language-model learner of fast\_bert/learner\_lm.py\<close>

text \<open>
  The embedding follows \<^verbatim>\<open>BertLMLearner\<close>: the constructor and
  \<^verbatim>\<open>from_pretrained_model\<close>, \<^verbatim>\<open>training_step\<close>, \<^verbatim>\<open>validate\<close> and
  \<^verbatim>\<open>fit\<close>. Python integers are \<open>int\<close> (floor division and modulo of HOL agree with
  Python's \<^verbatim>\<open>//\<close> and \<^verbatim>\<open>%\<close>), Python floats are read as \<open>real\<close>, dictionaries are
  association lists in insertion order, and every exception the code can raise by itself
  is a value of \<open>error\<close>. The model, the optimizer, the scheduler and the masking
  transform are external collaborators: they enter as the functions of an environment
  record, over an arbitrary model state \<open>'m\<close> and batch type \<open>'b\<close>. So does the
  exponential of the perplexity: the code takes it on a float32 tensor, which is not the
  real exponential, so it is a function of the environment and never \<open>exp\<close> itself.
\<close>

subsection \<open>Exceptions\<close>

text \<open>The place of a division tells which statement of the source raised.\<close>

datatype div_site =
    TotalSteps          \<comment> \<open>\<^verbatim>\<open>len(train_dataloader) // self.grad_accumulation_steps * epochs\<close>\<close>
  | EpochsFromMaxSteps  \<comment> \<open>\<^verbatim>\<open>self.max_steps // len(train_dataloader) // self.grad_accumulation_steps\<close>\<close>
  | AccumulationModulo  \<comment> \<open>\<^verbatim>\<open>(step + 1) % self.grad_accumulation_steps\<close>\<close>
  | EpochAverage        \<comment> \<open>\<^verbatim>\<open>epoch_loss / epoch_step\<close>\<close>
  | FitReturn           \<comment> \<open>\<^verbatim>\<open>tr_loss / global_step\<close>\<close>
  | EvalMean            \<comment> \<open>\<^verbatim>\<open>eval_loss / nb_eval_steps\<close>\<close>

datatype error =
    ZeroDivisionError div_site
  | TypeError       \<comment> \<open>\<^verbatim>\<open>self.neptune_run[...]\<close> with \<^verbatim>\<open>neptune_run = None\<close>\<close>
  | NameError       \<comment> \<open>\<^verbatim>\<open>autocast\<close> is imported only when \<^verbatim>\<open>IS_AMP_AVAILABLE\<close>\<close>
  | AttributeError  \<comment> \<open>a method of \<^verbatim>\<open>self.scaler\<close> with \<^verbatim>\<open>scaler = None\<close>\<close>
  | KeyError        \<comment> \<open>\<^verbatim>\<open>MODEL_CLASSES[model_type]\<close> with an unknown tag\<close>

subsection \<open>Data\<close>

type_synonym pydict = "(string \<times> real) list"

text \<open>\<^verbatim>\<open>d.update(other)\<close>: a key already present keeps its place, a new key goes last.\<close>

definition dict_update :: "pydict \<Rightarrow> pydict \<Rightarrow> pydict" where
  "dict_update d other = foldl (\<lambda>acc kv. AList.update (fst kv) (snd kv) acc) d other"

definition dict_get :: "pydict \<Rightarrow> string \<Rightarrow> real option" where
  "dict_get d k = map_of d k"

record metric =
  name :: string

text \<open>The telemetry sink, as the three channels the learner writes.\<close>

record neptune =
  fine_tune_batch_loss :: "real list"
  fine_tune_eval_loss :: "real list"
  fine_tune_metrics :: "pydict option"

definition new_run :: neptune where
  "new_run = \<lparr>fine_tune_batch_loss = [], fine_tune_eval_loss = [], fine_tune_metrics = None\<rparr>"

record ('m, 'b) learner =
  train_dl :: "'b list"
  val_dl :: "'b list"
  model :: 'm
  training :: bool                 \<comment> \<open>the mode set by \<^verbatim>\<open>model.train()\<close> and \<^verbatim>\<open>model.eval()\<close>\<close>
  metrics :: "metric list"
  multi_gpu :: bool
  is_fp16 :: bool
  scaler :: "unit option"
  grad_accumulation_steps :: int
  n_gpu :: int
  logging_steps :: int
  max_steps :: int
  epochs_attr :: "int option"      \<comment> \<open>\<^verbatim>\<open>self.epochs\<close>, unset until \<^verbatim>\<open>fit\<close> assigns it\<close>
  neptune_run :: "neptune option"

text \<open>What the learner calls and does not define.\<close>

record ('m, 'b) env =
  IS_AMP_AVAILABLE :: bool
  device_count :: int                        \<comment> \<open>\<^verbatim>\<open>torch.cuda.device_count()\<close>\<close>
  load_pretrained :: "string \<Rightarrow> 'm"          \<comment> \<open>\<^verbatim>\<open>model_class.from_pretrained\<close>\<close>
  train_forward :: "'m \<Rightarrow> 'b \<Rightarrow> real"         \<comment> \<open>\<^verbatim>\<open>outputs[0]\<close> on the masked batch, averaged over replicas\<close>
  loss_backward :: "'m \<Rightarrow> 'b \<Rightarrow> 'm"          \<comment> \<open>\<^verbatim>\<open>loss.backward()\<close>: gradients accumulate in the model\<close>
  optimizer_update :: "'m \<Rightarrow> 'm"             \<comment> \<open>clip, step, \<^verbatim>\<open>zero_grad\<close>\<close>
  eval_forward :: "'m \<Rightarrow> 'b \<Rightarrow> real"          \<comment> \<open>\<^verbatim>\<open>outputs[0].mean().item()\<close> under \<^verbatim>\<open>no_grad\<close>\<close>
  scheduler_lr :: "int \<Rightarrow> nat \<Rightarrow> real"        \<comment> \<open>\<^verbatim>\<open>scheduler.get_lr()[0]\<close>, from \<open>t_total\<close> and the steps taken\<close>
  torch_exp :: "real \<Rightarrow> real"                \<comment> \<open>\<^verbatim>\<open>float(torch.exp(torch.tensor(x)))\<close>: the float32 exponential\<close>

subsection \<open>Construction\<close>

record 'b ctor_args =
  arg_train_dl :: "'b list"
  arg_val_dl :: "'b list"
  arg_model_type :: string
  arg_metrics :: "metric list"
  arg_neptune_run :: "neptune option"
  arg_multi_gpu :: bool
  arg_is_fp16 :: bool
  arg_grad_accumulation_steps :: int
  arg_logging_steps :: int

text \<open>The defaults of the signature, around the required data and metrics.\<close>

definition default_args :: "'b list \<Rightarrow> 'b list \<Rightarrow> string \<Rightarrow> metric list \<Rightarrow> 'b ctor_args" where
  "default_args tr va ty ms =
     \<lparr>arg_train_dl = tr, arg_val_dl = va, arg_model_type = ty, arg_metrics = ms,
      arg_neptune_run = None, arg_multi_gpu = True, arg_is_fp16 = True,
      arg_grad_accumulation_steps = 1, arg_logging_steps = 100\<rparr>"

definition MODEL_CLASSES :: "string list" where
  "MODEL_CLASSES = [''bert'', ''roberta'', ''distilbert'', ''camembert-base'', ''electra'']"

definition init :: "('m, 'b) env \<Rightarrow> 'b ctor_args \<Rightarrow> 'm \<Rightarrow> ('m, 'b) learner" where
  "init env a mdl =
     \<lparr>train_dl = arg_train_dl a, val_dl = arg_val_dl a, model = mdl, training = False,
      metrics = arg_metrics a, multi_gpu = arg_multi_gpu a, is_fp16 = arg_is_fp16 a,
      scaler = (if arg_is_fp16 a then Some () else None),
      grad_accumulation_steps = arg_grad_accumulation_steps a,
      n_gpu = (if arg_multi_gpu a then device_count env else 0),
      logging_steps = arg_logging_steps a, max_steps = - 1, epochs_attr = None,
      neptune_run = arg_neptune_run a\<rparr>"

definition from_pretrained_model ::
  "('m, 'b) env \<Rightarrow> 'b ctor_args \<Rightarrow> string \<Rightarrow> error + ('m, 'b) learner" where
  "from_pretrained_model env a pretrained_path =
     (let is_fp16' = (if arg_is_fp16 a \<and> \<not> IS_AMP_AVAILABLE env then False else arg_is_fp16 a)
      in if arg_model_type a \<notin> set MODEL_CLASSES then Inl KeyError
         else Inr (init env (a\<lparr>arg_is_fp16 := is_fp16'\<rparr>) (load_pretrained env pretrained_path)))"

subsection \<open>Training step\<close>

definition training_step ::
  "('m, 'b) env \<Rightarrow> ('m, 'b) learner \<Rightarrow> 'b \<Rightarrow> error + (real \<times> ('m, 'b) learner)" where
  "training_step env L batch =
     (if is_fp16 L \<and> \<not> IS_AMP_AVAILABLE env then Inl NameError
      else
        let loss = train_forward env (model L) batch in
        case neptune_run L of
          None \<Rightarrow> Inl TypeError
        | Some run \<Rightarrow>
            let run' = run\<lparr>fine_tune_batch_loss := fine_tune_batch_loss run @ [loss]\<rparr>;
                loss' = (if grad_accumulation_steps L > 1
                         then loss / real_of_int (grad_accumulation_steps L) else loss)
            in if is_fp16 L \<and> scaler L = None then Inl AttributeError
               else Inr (loss', L\<lparr>model := loss_backward env (model L) batch,
                                  training := True, neptune_run := Some run'\<rparr>))"

subsection \<open>Validation\<close>

definition validation_scores_of :: "metric list \<Rightarrow> pydict" where
  "validation_scores_of ms = foldl (\<lambda>d m. AList.update (name m) 0 d) [] ms"

text \<open>One turn of the loop over \<^verbatim>\<open>val_dl\<close>, on (\<^verbatim>\<open>eval_loss\<close>, \<^verbatim>\<open>nb_eval_steps\<close>, mode).\<close>

definition eval_batch ::
  "('m, 'b) env \<Rightarrow> 'm \<Rightarrow> real \<times> int \<times> bool \<Rightarrow> 'b \<Rightarrow> real \<times> int \<times> bool" where
  "eval_batch env mdl st batch =
     (case st of (eval_loss, nb_eval_steps, mode) \<Rightarrow>
        (eval_loss + eval_forward env mdl batch, nb_eval_steps + 1, False))"

definition validate ::
  "('m, 'b) env \<Rightarrow> ('m, 'b) learner \<Rightarrow> error + (pydict \<times> ('m, 'b) learner)" where
  "validate env L =
     (let validation_scores = validation_scores_of (metrics L) in
      case foldl (eval_batch env (model L)) (0, 0, training L) (val_dl L) of
        (eval_loss, nb_eval_steps, mode) \<Rightarrow>
          if nb_eval_steps = 0 then Inl (ZeroDivisionError EvalMean)
          else
            let eval_loss' = eval_loss / real_of_int nb_eval_steps;
                perplexity = torch_exp env eval_loss';
                results = [(''loss'', eval_loss'), (''perplexity'', perplexity)]
            in case neptune_run L of
                 None \<Rightarrow> Inl TypeError
               | Some run \<Rightarrow>
                   Inr (dict_update results validation_scores,
                        L\<lparr>training := mode,
                          neptune_run := Some (run\<lparr>fine_tune_eval_loss :=
                                                     fine_tune_eval_loss run @ [eval_loss'],
                                                   fine_tune_metrics := Some results\<rparr>)\<rparr>))"

subsection \<open>The training loop\<close>

text \<open>A \<^verbatim>\<open>for\<close> loop whose body may raise: the first exception ends it.\<close>

fun for_loop :: "('s \<Rightarrow> 'a \<Rightarrow> error + 's) \<Rightarrow> 's \<Rightarrow> 'a list \<Rightarrow> error + 's" where
  "for_loop body s [] = Inr s"
| "for_loop body s (x # xs) =
     (case body s x of Inl e \<Rightarrow> Inl e | Inr s' \<Rightarrow> for_loop body s' xs)"

text \<open>
  The local variables of \<^verbatim>\<open>fit\<close>, with the learner. The optimizer and the scheduler
  are seen through the number of their \<^verbatim>\<open>step\<close> calls (a call of
  \<^verbatim>\<open>scaler.step(optimizer)\<close> counts as an optimizer step), the event writer through the
  scalars written: tag, value, global step.
\<close>

record ('m, 'b) fit_state =
  lrn :: "('m, 'b) learner"
  t_total :: int
  optimizer_steps :: nat
  scheduler_steps :: nat
  global_step :: int
  epoch_step :: int
  tr_loss :: real
  logging_loss :: real
  epoch_loss :: real
  tb_writer :: "(string \<times> real \<times> int) list"

text \<open>The branch taken when \<^verbatim>\<open>(step + 1) % self.grad_accumulation_steps == 0\<close>.\<close>

definition accumulation_boundary ::
  "('m, 'b) env \<Rightarrow> ('m, 'b) fit_state \<Rightarrow> error + ('m, 'b) fit_state" where
  "accumulation_boundary env s =
     (if is_fp16 (lrn s) \<and> scaler (lrn s) = None then Inl AttributeError
      else Inr (s\<lparr>lrn := (lrn s)\<lparr>model := optimizer_update env (model (lrn s))\<rparr>,
                  optimizer_steps := Suc (optimizer_steps s),
                  scheduler_steps := Suc (scheduler_steps s),
                  global_step := global_step s + 1,
                  epoch_step := epoch_step s + 1\<rparr>))"

text \<open>The branch taken when \<^verbatim>\<open>global_step % self.logging_steps == 0\<close>.\<close>

definition eval_scalars :: "pydict \<Rightarrow> int \<Rightarrow> (string \<times> real \<times> int) list" where
  "eval_scalars results gs = map (\<lambda>kv. (''eval_'' @ fst kv, snd kv, gs)) results"

definition logging_boundary ::
  "('m, 'b) env \<Rightarrow> bool \<Rightarrow> ('m, 'b) fit_state \<Rightarrow> error + ('m, 'b) fit_state" where
  "logging_boundary env do_validate s =
     (case (if do_validate
            then (case validate env (lrn s) of
                    Inl e \<Rightarrow> Inl e
                  | Inr rl \<Rightarrow> Inr (s\<lparr>lrn := snd rl,
                                     tb_writer := tb_writer s @ eval_scalars (fst rl) (global_step s)\<rparr>))
            else Inr s) of
        Inl e \<Rightarrow> Inl e
      | Inr s1 \<Rightarrow>
          Inr (s1\<lparr>tb_writer := tb_writer s1 @
                     [(''lr'', scheduler_lr env (t_total s1) (scheduler_steps s1), global_step s1),
                      (''loss'', (tr_loss s1 - logging_loss s1) / real_of_int (logging_steps (lrn s1)),
                       global_step s1)],
                   logging_loss := tr_loss s1\<rparr>))"

text \<open>The body of the loop over \<^verbatim>\<open>enumerate(train_dataloader)\<close>.\<close>

definition micro_step ::
  "('m, 'b) env \<Rightarrow> bool \<Rightarrow> ('m, 'b) fit_state \<Rightarrow> nat \<times> 'b \<Rightarrow> error + ('m, 'b) fit_state" where
  "micro_step env do_validate s sb =
     (case training_step env (lrn s) (snd sb) of
        Inl e \<Rightarrow> Inl e
      | Inr ll \<Rightarrow>
          let s1 = s\<lparr>lrn := snd ll, tr_loss := tr_loss s + fst ll,
                     epoch_loss := epoch_loss s + fst ll\<rparr>;
              k = grad_accumulation_steps (lrn s1)
          in if k = 0 then Inl (ZeroDivisionError AccumulationModulo)
             else if (int (fst sb) + 1) mod k = 0 then
               (case accumulation_boundary env s1 of
                  Inl e \<Rightarrow> Inl e
                | Inr s2 \<Rightarrow>
                    if logging_steps (lrn s2) > 0 \<and> global_step s2 mod logging_steps (lrn s2) = 0
                    then logging_boundary env do_validate s2
                    else Inr s2)
             else Inr s1)"

text \<open>The body of the loop over \<^verbatim>\<open>range(epochs)\<close>.\<close>

definition run_epoch ::
  "('m, 'b) env \<Rightarrow> bool \<Rightarrow> ('m, 'b) fit_state \<Rightarrow> nat \<Rightarrow> error + ('m, 'b) fit_state" where
  "run_epoch env do_validate s epoch =
     (let s0 = s\<lparr>epoch_step := 0, epoch_loss := 0\<rparr> in
      case for_loop (micro_step env do_validate) s0 (enumerate 0 (train_dl (lrn s0))) of
        Inl e \<Rightarrow> Inl e
      | Inr s1 \<Rightarrow>
          (case (if do_validate
                 then (case validate env (lrn s1) of
                         Inl e \<Rightarrow> Inl e
                       | Inr rl \<Rightarrow> Inr (s1\<lparr>lrn := snd rl\<rparr>))
                 else Inr s1) of
             Inl e \<Rightarrow> Inl e
           | Inr s2 \<Rightarrow>
               if epoch_step s2 = 0 then Inl (ZeroDivisionError EpochAverage) else Inr s2))"

text \<open>
  The head of \<^verbatim>\<open>fit\<close>: the total handed to the scheduler factory. With a maximum set
  the learner stores an epoch count in \<^verbatim>\<open>self.epochs\<close>.
\<close>

definition plan_steps ::
  "('m, 'b) learner \<Rightarrow> int \<Rightarrow> error + (int \<times> ('m, 'b) learner)" where
  "plan_steps L epochs =
     (let n = int (length (train_dl L)); k = grad_accumulation_steps L in
      if max_steps L > 0 then
        if n = 0 \<or> k = 0 then Inl (ZeroDivisionError EpochsFromMaxSteps)
        else Inr (max_steps L, L\<lparr>epochs_attr := Some (max_steps L div n div k + 1)\<rparr>)
      else if k = 0 then Inl (ZeroDivisionError TotalSteps)
      else Inr (n div k * epochs, L))"

definition start_state :: "('m, 'b) learner \<Rightarrow> int \<Rightarrow> ('m, 'b) fit_state" where
  "start_state L planned =
     \<lparr>lrn = L, t_total = planned, optimizer_steps = 0, scheduler_steps = 0,
      global_step = 0, epoch_step = 0, tr_loss = 0, logging_loss = 0, epoch_loss = 0,
      tb_writer = []\<rparr>"

text \<open>
  \<^verbatim>\<open>fit(epochs, lr, validate)\<close>: the pair returned, with the final state. The loop runs
  over \<^verbatim>\<open>range(epochs)\<close>, the argument.
\<close>

definition fit ::
  "('m, 'b) env \<Rightarrow> ('m, 'b) learner \<Rightarrow> int \<Rightarrow> bool
     \<Rightarrow> error + ((int \<times> real) \<times> ('m, 'b) fit_state)" where
  "fit env L epochs do_validate =
     (case plan_steps L epochs of
        Inl e \<Rightarrow> Inl e
      | Inr plan \<Rightarrow>
          (case for_loop (run_epoch env do_validate) (start_state (snd plan) (fst plan))
                  [0..<nat epochs] of
             Inl e \<Rightarrow> Inl e
           | Inr s \<Rightarrow>
               if global_step s = 0 then Inl (ZeroDivisionError FitReturn)
               else Inr ((global_step s, tr_loss s / real_of_int (global_step s)), s)))"

subsection \<open>What the caller sees, and concrete learners\<close>

text \<open>The value \<^verbatim>\<open>validate()\<close> returns, and the one \<^verbatim>\<open>fit\<close> returns.\<close>

definition validate_results :: "('m, 'b) env \<Rightarrow> ('m, 'b) learner \<Rightarrow> error + pydict" where
  "validate_results env L = (case validate env L of Inl e \<Rightarrow> Inl e | Inr rl \<Rightarrow> Inr (fst rl))"

definition fit_returned ::
  "('m, 'b) env \<Rightarrow> ('m, 'b) learner \<Rightarrow> int \<Rightarrow> bool \<Rightarrow> error + (int \<times> real)" where
  "fit_returned env L epochs do_validate =
     (case fit env L epochs do_validate of Inl e \<Rightarrow> Inl e | Inr r \<Rightarrow> Inr (fst r))"

text \<open>The mean over the validation batches of the loss of each batch.\<close>

definition mean_loss :: "('m, 'b) env \<Rightarrow> ('m, 'b) learner \<Rightarrow> real" where
  "mean_loss env L =
     sum_list (map (eval_forward env (model L)) (val_dl L)) / real (length (val_dl L))"

text \<open>
  The float32 exponential at the point the examples below evaluate it: at 2.0 torch gives
  7747987 / 2^20 = 7.389056205749512 (the float32 nearest to the real exponential). The
  real exponential stands in at every other point.
\<close>

definition exp_f32 :: "real \<Rightarrow> real" where
  "exp_f32 x = (if x = 2 then 7747987 / 1048576 else exp x)"

text \<open>
  An environment to run the learner on: a batch is the loss the model gives it, the
  model state counts the optimizer updates.
\<close>

definition sample_env :: "bool \<Rightarrow> (nat, real) env" where
  "sample_env amp =
     \<lparr>IS_AMP_AVAILABLE = amp, device_count = 1, load_pretrained = (\<lambda>p. 0),
      train_forward = (\<lambda>m b. b), loss_backward = (\<lambda>m b. m), optimizer_update = Suc,
      eval_forward = (\<lambda>m b. b), scheduler_lr = (\<lambda>t n. 0), torch_exp = exp_f32\<rparr>"

definition sample_args :: "real list \<Rightarrow> real list \<Rightarrow> metric list \<Rightarrow> real ctor_args" where
  "sample_args tr va ms =
     (default_args tr va ''bert'' ms)\<lparr>arg_neptune_run := Some new_run, arg_is_fp16 := False\<rparr>"

subsection \<open>Conditions on a learner\<close>

text \<open>
  What a run needs of the learner besides its sizes: the telemetry sink is there, mixed
  precision is on only with its support and its scaler, and a validation that is asked
  for has batches.
\<close>

definition ready :: "('m, 'b) env \<Rightarrow> bool \<Rightarrow> ('m, 'b) learner \<Rightarrow> bool" where
  "ready env do_validate L =
     (neptune_run L \<noteq> None
      \<and> (if is_fp16 L then IS_AMP_AVAILABLE env \<and> scaler L \<noteq> None else True)
      \<and> (if do_validate then val_dl L \<noteq> [] else True))"

text \<open>Two learners that differ at most in the model, its mode and what the sink holds.\<close>

definition same_config :: "('m, 'b) learner \<Rightarrow> ('m, 'b) learner \<Rightarrow> bool" where
  "same_config L L' =
     (train_dl L' = train_dl L \<and> val_dl L' = val_dl L \<and> metrics L' = metrics L
      \<and> is_fp16 L' = is_fp16 L \<and> scaler L' = scaler L
      \<and> grad_accumulation_steps L' = grad_accumulation_steps L
      \<and> logging_steps L' = logging_steps L \<and> max_steps L' = max_steps L
      \<and> epochs_attr L' = epochs_attr L
      \<and> (neptune_run L' = None) = (neptune_run L = None))"

subsection \<open>The micro-steps of a run\<close>

text \<open>
  The completed turns of a loop, in order: the state before the turn, the item, the
  state after. A turn that raises ends the list.
\<close>

fun loop_trace :: "('s \<Rightarrow> 'a \<Rightarrow> error + 's) \<Rightarrow> 's \<Rightarrow> 'a list \<Rightarrow> ('s \<times> 'a \<times> 's) list" where
  "loop_trace body s [] = []"
| "loop_trace body s (x # xs) =
     (case body s x of
        Inl e \<Rightarrow> []
      | Inr s' \<Rightarrow> (s, x, s') # loop_trace body s' xs)"

text \<open>The micro-steps of the epochs of a run, and of \<^verbatim>\<open>fit\<close> as a whole.\<close>

fun epochs_trace ::
  "('m, 'b) env \<Rightarrow> bool \<Rightarrow> ('m, 'b) fit_state \<Rightarrow> nat list
     \<Rightarrow> (('m, 'b) fit_state \<times> (nat \<times> 'b) \<times> ('m, 'b) fit_state) list" where
  "epochs_trace env do_validate s [] = []"
| "epochs_trace env do_validate s (epoch # eps) =
     loop_trace (micro_step env do_validate) (s\<lparr>epoch_step := 0, epoch_loss := 0\<rparr>)
       (enumerate 0 (train_dl (lrn s)))
     @ (case run_epoch env do_validate s epoch of
          Inl e \<Rightarrow> []
        | Inr s' \<Rightarrow> epochs_trace env do_validate s' eps)"

definition fit_trace ::
  "('m, 'b) env \<Rightarrow> ('m, 'b) learner \<Rightarrow> int \<Rightarrow> bool
     \<Rightarrow> (('m, 'b) fit_state \<times> (nat \<times> 'b) \<times> ('m, 'b) fit_state) list" where
  "fit_trace env L epochs do_validate =
     (case plan_steps L epochs of
        Inl e \<Rightarrow> []
      | Inr plan \<Rightarrow>
          epochs_trace env do_validate (start_state (snd plan) (fst plan)) [0..<nat epochs])"

text \<open>A micro-step at an accumulation boundary: its index is one short of a multiple of \<open>k\<close>.\<close>

definition at_boundary ::
  "int \<Rightarrow> ('m, 'b) fit_state \<times> (nat \<times> 'b) \<times> ('m, 'b) fit_state \<Rightarrow> bool" where
  "at_boundary k tr = ((int (fst (fst (snd tr))) + 1) mod k = 0)"

text \<open>
  The cumulative training loss at global step \<open>S\<close>: \<^verbatim>\<open>tr_loss\<close> at the moment
  \<^verbatim>\<open>global_step\<close> became \<open>S\<close>, and 0 at step 0, where the run starts.
\<close>

definition step_entry ::
  "('m, 'b) fit_state \<times> (nat \<times> 'b) \<times> ('m, 'b) fit_state \<Rightarrow> int \<times> real" where
  "step_entry tr = (global_step (snd (snd tr)), tr_loss (snd (snd tr)))"

definition cum_of :: "(int \<times> real) list \<Rightarrow> int \<Rightarrow> real option" where
  "cum_of H S = map_of H S"

definition cumulative_loss ::
  "(('m, 'b) fit_state \<times> (nat \<times> 'b) \<times> ('m, 'b) fit_state) list \<Rightarrow> int \<Rightarrow> real option" where
  "cumulative_loss T = cum_of ((0, 0) # map step_entry T)"

text \<open>A micro-step at a logging boundary, and what is written there.\<close>

definition at_logging_boundary ::
  "int \<Rightarrow> int \<Rightarrow> ('m, 'b) fit_state \<times> (nat \<times> 'b) \<times> ('m, 'b) fit_state \<Rightarrow> bool" where
  "at_logging_boundary k lg tr =
     (at_boundary k tr \<and> 0 < lg \<and> global_step (snd (snd tr)) mod lg = 0)"

definition logs_window_average ::
  "(int \<Rightarrow> real option) \<Rightarrow> int
     \<Rightarrow> ('m, 'b) fit_state \<times> (nat \<times> 'b) \<times> ('m, 'b) fit_state \<Rightarrow> bool" where
  "logs_window_average cum lg tr =
     (case (cum (global_step (snd (snd tr)) - lg), cum (global_step (snd (snd tr)))) of
        (Some prev, Some cur) \<Rightarrow>
          cur = tr_loss (snd (snd tr))
          \<and> tb_writer (snd (snd tr)) \<noteq> []
          \<and> last (tb_writer (snd (snd tr)))
              = (''loss'', (cur - prev) / real_of_int lg, global_step (snd (snd tr)))
      | _ \<Rightarrow> False)"

text \<open>
  A history of (global step, cumulative loss) pairs that fits a state: every step up to
  the state's is recorded, and \<^verbatim>\<open>logging_loss\<close> is the loss recorded at the last
  multiple of the logging interval.
\<close>

definition hist_inv :: "(int \<times> real) list \<Rightarrow> int \<Rightarrow> ('m, 'b) fit_state \<Rightarrow> bool" where
  "hist_inv H lg s =
     (0 \<le> global_step s \<and> fst ` set H = {0..global_step s}
      \<and> cum_of H (lg * (global_step s div lg)) = Some (logging_loss s))"

text \<open>
  A list of micro-steps that hands the global step on unchanged: the first starts from
  \<open>g\<close> and each next one from where the one before ended.
\<close>

fun chained ::
  "int \<Rightarrow> (('m, 'b) fit_state \<times> (nat \<times> 'b) \<times> ('m, 'b) fit_state) list \<Rightarrow> bool" where
  "chained g [] = True"
| "chained g (tr # T) = (global_step (fst tr) = g \<and> chained (global_step (snd (snd tr))) T)"

section \<open>Properties\<close>

subsection \<open>Validation\<close>

lemma eval_loop:
  "foldl (eval_batch env mdl) (a, n, t) xs =
     (a + sum_list (map (eval_forward env mdl) xs), n + int (length xs), if xs = [] then t else False)"
  by (induction xs arbitrary: a n t) (simp_all add: eval_batch_def)

lemma map_of_dict_update:
  "map_of (dict_update d other) k =
     (case map_of (rev other) k of Some v \<Rightarrow> Some v | None \<Rightarrow> map_of d k)"
  unfolding dict_update_def
  by (induction other arbitrary: d) (auto simp: update_conv' split: option.splits)

lemma keys_dict_update:
  "fst ` set (dict_update d other) = fst ` set d \<union> fst ` set other"
  unfolding dict_update_def
  by (induction other arbitrary: d) (auto simp: dom_update)

lemma distinct_dict_update:
  "distinct (map fst d) \<Longrightarrow> distinct (map fst (dict_update d other))"
  unfolding dict_update_def
  by (induction other arbitrary: d) (auto simp: distinct_update)

lemma scores_aux:
  "map_of (foldl (\<lambda>d m. AList.update (name m) 0 d) d0 ms) k =
     (if k \<in> name ` set ms then Some (0::real) else map_of d0 k)"
  by (induction ms arbitrary: d0) (auto simp: update_conv')

lemma map_of_scores:
  "map_of (validation_scores_of ms) k = (if k \<in> name ` set ms then Some 0 else None)"
  by (simp add: validation_scores_of_def scores_aux)

lemma keys_scores_aux:
  "fst ` set (foldl (\<lambda>d m. AList.update (name m) (0::real) d) d0 ms) = fst ` set d0 \<union> name ` set ms"
  by (induction ms arbitrary: d0) (auto simp: dom_update)

lemma keys_scores: "fst ` set (validation_scores_of ms) = name ` set ms"
  by (simp add: validation_scores_of_def keys_scores_aux)

lemma validate_Inr:
  assumes "validate env L = Inr (r, L')"
  shows "val_dl L \<noteq> [] \<and> (\<exists>run. neptune_run L = Some run)"
  using assms
  by (auto simp: validate_def eval_loop Let_def split: if_splits option.splits)


lemma validate_eq:
  "validate env L =
     (if val_dl L = [] then Inl (ZeroDivisionError EvalMean)
      else case neptune_run L of
             None \<Rightarrow> Inl TypeError
           | Some run \<Rightarrow>
               Inr (dict_update [(''loss'', mean_loss env L), (''perplexity'', torch_exp env (mean_loss env L))]
                      (validation_scores_of (metrics L)),
                    L\<lparr>training := False,
                      neptune_run := Some (run\<lparr>fine_tune_eval_loss :=
                                                 fine_tune_eval_loss run @ [mean_loss env L],
                                               fine_tune_metrics :=
                                                 Some [(''loss'', mean_loss env L),
                                                       (''perplexity'', torch_exp env (mean_loss env L))]\<rparr>)\<rparr>))"
  by (simp add: validate_def eval_loop mean_loss_def Let_def split: option.splits)

text \<open>
  Claim C9. The telemetry sink is used without a guard: on a learner whose
  \<^verbatim>\<open>neptune_run\<close> is \<^verbatim>\<open>None\<close> (the default of the constructor) every call of
  \<^verbatim>\<open>training_step\<close> and every call of \<^verbatim>\<open>validate\<close> raises. The training step raises
  \<^verbatim>\<open>TypeError\<close> at the sink (or \<^verbatim>\<open>NameError\<close> before it, when mixed precision is on
  without support); \<^verbatim>\<open>validate\<close> raises \<^verbatim>\<open>TypeError\<close> at the sink (or the division by
  zero before it, when the validation set is empty).
\<close>

theorem sink_absent_raises:
  assumes "neptune_run L = None"
  shows "training_step env L batch =
           Inl (if is_fp16 L \<and> \<not> IS_AMP_AVAILABLE env then NameError else TypeError)
         \<and> validate env L =
           Inl (if val_dl L = [] then ZeroDivisionError EvalMean else TypeError)"
  using assms by (simp add: training_step_def validate_eq)

text \<open>
  The constructor's default leaves the sink absent.
\<close>

theorem default_sink_absent:
  "neptune_run (init env (default_args tr va ty ms) mdl) = None"
  by (simp add: init_def default_args_def)

text \<open>
  Claim C9 on the learner built with the default arguments.
\<close>

theorem sink_absent_raises_witness:
  "neptune_run (init (sample_env True) (default_args [1] [2] ''bert'' []) 0) = None
   \<and> training_step (sample_env True) (init (sample_env True) (default_args [1] [2] ''bert'' []) 0) 1
       = Inl TypeError
   \<and> validate (sample_env True) (init (sample_env True) (default_args [1] [2] ''bert'' []) 0)
       = Inl TypeError"
  using sink_absent_raises [of "init (sample_env True) (default_args [1] [2] ''bert'' []) 0"
      "sample_env True" 1]
  by (simp add: init_def default_args_def sample_env_def)

lemma dict_update_scores:
  "map_of (dict_update d (validation_scores_of ms)) k =
     (if k \<in> name ` set ms then Some 0 else map_of d k)"
proof (cases "map_of (rev (validation_scores_of ms)) k")
  case None
  then have "k \<notin> fst ` set (rev (validation_scores_of ms))"
    by (simp add: map_of_eq_None_iff)
  then have "k \<notin> name ` set ms"
    by (simp add: keys_scores)
  with None show ?thesis
    by (simp add: map_of_dict_update)
next
  case (Some v)
  then have mem: "(k, v) \<in> set (validation_scores_of ms)"
    by (auto dest: map_of_SomeD)
  then have "k \<in> fst ` set (validation_scores_of ms)"
    by force
  then have k: "k \<in> name ` set ms"
    by (simp add: keys_scores)
  have "map_of (validation_scores_of ms) k = Some 0"
    using k by (simp add: map_of_scores)
  moreover have "distinct (map fst (validation_scores_of ms))"
    using distinct_dict_update [of "[]" "map (\<lambda>m. (name m, 0)) ms"]
    by (simp add: validation_scores_of_def dict_update_def foldl_map)
  ultimately have "v = 0"
    using mem by (metis map_of_is_SomeI option.inject)
  with Some k show ?thesis
    by (simp add: map_of_dict_update)
qed

lemma validate_results_eq:
  assumes "validate env L = Inr (r, L')"
  shows "r = dict_update [(''loss'', mean_loss env L), (''perplexity'', torch_exp env (mean_loss env L))]
               (validation_scores_of (metrics L))"
  using assms by (auto simp: validate_eq split: if_splits option.splits)

text \<open>
  Claim C10. The mapping returned by \<^verbatim>\<open>validate\<close> has exactly the keys
  \<^verbatim>\<open>loss\<close>, \<^verbatim>\<open>perplexity\<close> and the configured metric names, each once, and the entry
  of every configured metric is 0.0: the scores are merged last, so a metric named
  \<^verbatim>\<open>loss\<close> or \<^verbatim>\<open>perplexity\<close> replaces the computed value.
\<close>

theorem validate_metric_scores_zero:
  assumes "validate env L = Inr (r, L')"
  shows "(\<forall>m \<in> set (metrics L). dict_get r (name m) = Some 0)
         \<and> fst ` set r = {''loss'', ''perplexity''} \<union> name ` set (metrics L)
         \<and> distinct (map fst r)"
proof -
  note r = validate_results_eq [OF assms]
  have "\<forall>m \<in> set (metrics L). dict_get r (name m) = Some 0"
    by (simp add: r dict_get_def dict_update_scores)
  moreover have "fst ` set r = {''loss'', ''perplexity''} \<union> name ` set (metrics L)"
    by (simp add: r keys_dict_update keys_scores)
  moreover have "distinct (map fst r)"
    unfolding r by (rule distinct_dict_update) simp
  ultimately show ?thesis by blast
qed

text \<open>
  Claim C10 at one batch of loss 2 and the metrics \<^verbatim>\<open>loss\<close> and \<^verbatim>\<open>f1\<close>.
\<close>

theorem validate_metric_scores_zero_witness:
  "validate (sample_env True) (init (sample_env True) (sample_args [] [2] [\<lparr>name = ''loss''\<rparr>, \<lparr>name = ''f1''\<rparr>]) 0)
     = Inr ([(''loss'', 0), (''perplexity'', 7747987 / 1048576), (''f1'', 0)],
            (init (sample_env True) (sample_args [] [2] [\<lparr>name = ''loss''\<rparr>, \<lparr>name = ''f1''\<rparr>]) 0)
              \<lparr>training := False,
                neptune_run := Some \<lparr>fine_tune_batch_loss = [], fine_tune_eval_loss = [2],
                  fine_tune_metrics = Some [(''loss'', 2), (''perplexity'', 7747987 / 1048576)]\<rparr>\<rparr>)
   \<and> dict_get [(''loss'', 0), (''perplexity'', 7747987 / 1048576), (''f1'', 0)] ''loss'' = Some 0
   \<and> dict_get [(''loss'', 0), (''perplexity'', 7747987 / 1048576), (''f1'', 0)] ''f1'' = Some 0"
proof -
  have v: "validate (sample_env True) (init (sample_env True) (sample_args [] [2] [\<lparr>name = ''loss''\<rparr>, \<lparr>name = ''f1''\<rparr>]) 0)
     = Inr ([(''loss'', 0), (''perplexity'', 7747987 / 1048576), (''f1'', 0)],
            (init (sample_env True) (sample_args [] [2] [\<lparr>name = ''loss''\<rparr>, \<lparr>name = ''f1''\<rparr>]) 0)
              \<lparr>training := False,
                neptune_run := Some \<lparr>fine_tune_batch_loss = [], fine_tune_eval_loss = [2],
                  fine_tune_metrics = Some [(''loss'', 2), (''perplexity'', 7747987 / 1048576)]\<rparr>\<rparr>)"
    by (simp add: validate_def eval_batch_def validation_scores_of_def dict_update_def
        init_def sample_args_def default_args_def sample_env_def new_run_def exp_f32_def)
  from validate_metric_scores_zero [OF v] v show ?thesis
    by (simp add: init_def sample_args_def default_args_def)
qed


text \<open>
  The real exponential of 2 lies below the float32 value torch returns for it: the
  Maclaurin sum of sixteen terms with its remainder bounds it.
\<close>

lemma exp_2_upper: "exp (2::real) < 7747987 / 1048576"
proof -
  define c :: real where "c = 2 ^ 16 / fact 16"
  define S :: real where "S = (\<Sum>m<16. (2 ^ m) / fact m)"
  from Maclaurin_exp_le [of 2 16] obtain t :: real where t: "\<bar>t\<bar> \<le> 2"
    and e: "exp 2 = S + (exp t / fact 16) * 2 ^ 16"
    unfolding S_def by auto
  have c_val: "c = 65536 / 20922789888000"
    by (simp add: c_def fact_numeral)
  have S_val: "S = 4718007451 / 638512875"
    by (simp add: S_def lessThan_nat_numeral sum.lessThan_Suc fact_numeral)
  have c0: "0 \<le> c" "c < 1" by (simp_all add: c_val)
  have le: "exp t \<le> exp (2::real)" using t by simp
  have "exp (2::real) = S + exp t * c"
    using e by (simp add: c_def)
  also have "\<dots> \<le> S + exp 2 * c"
    using le c0(1) by (simp add: mult_right_mono)
  finally have "exp (2::real) * (1 - c) \<le> S"
    by (simp add: algebra_simps)
  then have "exp (2::real) \<le> S / (1 - c)"
    using c0(2) by (simp add: pos_le_divide_eq)
  also have "\<dots> < 7747987 / 1048576"
    unfolding S_val c_val by simp
  finally show ?thesis .
qed

text \<open>
  Claim C4 as stated fails, twice over, at one validation batch of loss 2.0. With a
  configured metric named \<^verbatim>\<open>loss\<close> the returned \<^verbatim>\<open>loss\<close> is 0.0 while the returned
  \<^verbatim>\<open>perplexity\<close> is the exponential of 2.0. With no metric at all the returned
  \<^verbatim>\<open>loss\<close> is 2.0 and the returned \<^verbatim>\<open>perplexity\<close> is the float32 exponential
  7.389056205749512, which is not \<open>exp 2\<close>.
\<close>

theorem perplexity_exp_loss_counterexample:
  "validate_results (sample_env True)
      (init (sample_env True) (sample_args [] [2] [\<lparr>name = ''loss''\<rparr>]) 0)
     = Inr [(''loss'', 0), (''perplexity'', 7747987 / 1048576)]
   \<and> dict_get [(''loss'', 0), (''perplexity'', 7747987 / 1048576)] ''perplexity''
       \<noteq> map_option exp (dict_get [(''loss'', 0), (''perplexity'', 7747987 / 1048576)] ''loss'')
   \<and> validate_results (sample_env True)
      (init (sample_env True) (sample_args [] [2] []) 0)
     = Inr [(''loss'', 2), (''perplexity'', 7747987 / 1048576)]
   \<and> dict_get [(''loss'', 2), (''perplexity'', 7747987 / 1048576)] ''perplexity''
       \<noteq> map_option exp (dict_get [(''loss'', 2), (''perplexity'', 7747987 / 1048576)] ''loss'')"
proof -
  have a: "validate_results (sample_env True)
      (init (sample_env True) (sample_args [] [2] [\<lparr>name = ''loss''\<rparr>]) 0)
     = Inr [(''loss'', 0), (''perplexity'', 7747987 / 1048576)]"
    by (simp add: validate_results_def validate_def eval_batch_def validation_scores_of_def
        dict_update_def init_def sample_args_def default_args_def sample_env_def
        new_run_def exp_f32_def Let_def)
  have b: "validate_results (sample_env True)
      (init (sample_env True) (sample_args [] [2] []) 0)
     = Inr [(''loss'', 2), (''perplexity'', 7747987 / 1048576)]"
    by (simp add: validate_results_def validate_def eval_batch_def validation_scores_of_def
        dict_update_def init_def sample_args_def default_args_def sample_env_def
        new_run_def exp_f32_def Let_def)
  have c: "dict_get [(''loss'', 0), (''perplexity'', 7747987 / 1048576)] ''perplexity''
       \<noteq> map_option exp (dict_get [(''loss'', 0), (''perplexity'', 7747987 / 1048576)] ''loss'')"
    by (simp add: dict_get_def)
  have d: "dict_get [(''loss'', 2), (''perplexity'', 7747987 / 1048576)] ''perplexity''
       \<noteq> map_option exp (dict_get [(''loss'', 2), (''perplexity'', 7747987 / 1048576)] ''loss'')"
    using exp_2_upper by (simp add: dict_get_def)
  from a b c d show ?thesis by blast
qed

text \<open>
  Claim C4, amended. When no configured metric is named \<^verbatim>\<open>loss\<close> or
  \<^verbatim>\<open>perplexity\<close>, every mapping \<^verbatim>\<open>validate\<close> returns comes from a non-empty validation
  set, its \<^verbatim>\<open>loss\<close> is the mean of the per-batch losses and its \<^verbatim>\<open>perplexity\<close> is
  \<^verbatim>\<open>float(torch.exp(torch.tensor(loss)))\<close>: the float32 exponential of that \<^verbatim>\<open>loss\<close>
  as torch computes it, whatever that function is, and not the real exponential.
\<close>

theorem perplexity_exp_loss:
  assumes "validate env L = Inr (r, L')"
    and "''loss'' \<notin> name ` set (metrics L)"
    and "''perplexity'' \<notin> name ` set (metrics L)"
  shows "val_dl L \<noteq> []
         \<and> dict_get r ''loss'' = Some (mean_loss env L)
         \<and> dict_get r ''perplexity'' = map_option (torch_exp env) (dict_get r ''loss'')"
  using assms(2,3) validate_Inr [OF assms(1)]
  by (simp add: validate_results_eq [OF assms(1)] dict_get_def dict_update_scores)

text \<open>
  Claim C4, amended, at two batches of losses 1 and 3 (mean 2.0) and the metric \<^verbatim>\<open>f1\<close>.
\<close>

theorem perplexity_exp_loss_witness:
  "validate (sample_env True) (init (sample_env True) (sample_args [] [1, 3] [\<lparr>name = ''f1''\<rparr>]) 0)
     = Inr ([(''loss'', 2), (''perplexity'', 7747987 / 1048576), (''f1'', 0)],
            (init (sample_env True) (sample_args [] [1, 3] [\<lparr>name = ''f1''\<rparr>]) 0)
              \<lparr>training := False,
                neptune_run := Some \<lparr>fine_tune_batch_loss = [], fine_tune_eval_loss = [2],
                  fine_tune_metrics = Some [(''loss'', 2), (''perplexity'', 7747987 / 1048576)]\<rparr>\<rparr>)
   \<and> dict_get [(''loss'', 2), (''perplexity'', 7747987 / 1048576), (''f1'', 0)] ''perplexity''
       = map_option (torch_exp (sample_env True))
           (dict_get [(''loss'', 2), (''perplexity'', 7747987 / 1048576), (''f1'', 0)] ''loss'')"
proof -
  have v: "validate (sample_env True) (init (sample_env True) (sample_args [] [1, 3] [\<lparr>name = ''f1''\<rparr>]) 0)
     = Inr ([(''loss'', 2), (''perplexity'', 7747987 / 1048576), (''f1'', 0)],
            (init (sample_env True) (sample_args [] [1, 3] [\<lparr>name = ''f1''\<rparr>]) 0)
              \<lparr>training := False,
                neptune_run := Some \<lparr>fine_tune_batch_loss = [], fine_tune_eval_loss = [2],
                  fine_tune_metrics = Some [(''loss'', 2), (''perplexity'', 7747987 / 1048576)]\<rparr>\<rparr>)"
    by (simp add: validate_def eval_batch_def validation_scores_of_def dict_update_def
        init_def sample_args_def default_args_def sample_env_def new_run_def exp_f32_def)
  from perplexity_exp_loss [OF v] v show ?thesis
    by (simp add: init_def sample_args_def default_args_def)
qed

text \<open>
  Claim C5. \<^verbatim>\<open>validate\<close> is idempotent: called again on the learner it leaves behind,
  with no training step in between, it returns the same mapping (so the same loss and
  perplexity).
\<close>

theorem validate_idempotent:
  assumes "validate env L = Inr (r, L')"
  shows "validate_results env L' = Inr r"
proof -
  from validate_Inr [OF assms] obtain run where ne: "val_dl L \<noteq> []"
    and run: "neptune_run L = Some run" by blast
  have L': "val_dl L' = val_dl L" "model L' = model L" "metrics L' = metrics L"
    "neptune_run L' \<noteq> None"
    using assms ne run by (auto simp: validate_eq)
  then have m: "mean_loss env L' = mean_loss env L"
    by (simp add: mean_loss_def)
  show ?thesis
    using L' ne m validate_results_eq [OF assms]
    by (auto simp: validate_results_def validate_eq split: option.splits)
qed

text \<open>
  Claim C5 at two validation batches of losses 1 and 3.
\<close>

theorem validate_idempotent_witness:
  "validate (sample_env True) (init (sample_env True) (sample_args [] [1, 3] []) 0)
     = Inr ([(''loss'', 2), (''perplexity'', 7747987 / 1048576)],
            (init (sample_env True) (sample_args [] [1, 3] []) 0)
              \<lparr>training := False,
                neptune_run := Some \<lparr>fine_tune_batch_loss = [], fine_tune_eval_loss = [2],
                  fine_tune_metrics = Some [(''loss'', 2), (''perplexity'', 7747987 / 1048576)]\<rparr>\<rparr>)
   \<and> validate_results (sample_env True)
        ((init (sample_env True) (sample_args [] [1, 3] []) 0)
              \<lparr>training := False,
                neptune_run := Some \<lparr>fine_tune_batch_loss = [], fine_tune_eval_loss = [2],
                  fine_tune_metrics = Some [(''loss'', 2), (''perplexity'', 7747987 / 1048576)]\<rparr>\<rparr>)
     = Inr [(''loss'', 2), (''perplexity'', 7747987 / 1048576)]"
proof -
  have v: "validate (sample_env True) (init (sample_env True) (sample_args [] [1, 3] []) 0)
     = Inr ([(''loss'', 2), (''perplexity'', 7747987 / 1048576)],
            (init (sample_env True) (sample_args [] [1, 3] []) 0)
              \<lparr>training := False,
                neptune_run := Some \<lparr>fine_tune_batch_loss = [], fine_tune_eval_loss = [2],
                  fine_tune_metrics = Some [(''loss'', 2), (''perplexity'', 7747987 / 1048576)]\<rparr>\<rparr>)"
    by (simp add: validate_def eval_batch_def validation_scores_of_def dict_update_def
        init_def sample_args_def default_args_def sample_env_def new_run_def exp_f32_def Let_def)
  from validate_idempotent [OF v] v show ?thesis
    by simp
qed


subsection \<open>One micro-batch\<close>

lemma same_config_refl: "same_config L L"
  by (simp add: same_config_def)

lemma same_config_trans: "same_config L L' \<Longrightarrow> same_config L' L'' \<Longrightarrow> same_config L L''"
  by (simp add: same_config_def)

lemma ready_same_config: "same_config L L' \<Longrightarrow> ready env v L \<Longrightarrow> ready env v L'"
  by (simp add: same_config_def ready_def)

lemma training_step_Inr:
  assumes "training_step env L b = Inr (l, L')"
  shows "same_config L L'"
  using assms
  by (auto simp: training_step_def same_config_def Let_def split: if_splits option.splits)

lemma training_step_ready:
  assumes "ready env v L"
  shows "\<exists>l L'. training_step env L b = Inr (l, L')"
  using assms
  by (auto simp: training_step_def ready_def Let_def split: if_splits option.splits)

lemma validate_same_config:
  assumes "validate env L = Inr (r, L')"
  shows "same_config L L'"
  using assms
  by (auto simp: validate_eq same_config_def split: if_splits option.splits)

lemma validate_ready:
  assumes "ready env True L"
  shows "\<exists>r L'. validate env L = Inr (r, L')"
  using assms
  by (auto simp: validate_eq ready_def split: if_splits option.splits)

lemma accumulation_boundary_Inr:
  assumes "accumulation_boundary env s = Inr s'"
  shows "same_config (lrn s) (lrn s') \<and> t_total s' = t_total s
         \<and> global_step s' = global_step s + 1 \<and> epoch_step s' = epoch_step s + 1
         \<and> optimizer_steps s' = Suc (optimizer_steps s)
         \<and> scheduler_steps s' = Suc (scheduler_steps s)
         \<and> tr_loss s' = tr_loss s \<and> logging_loss s' = logging_loss s
         \<and> epoch_loss s' = epoch_loss s \<and> tb_writer s' = tb_writer s"
  using assms
  by (auto simp: accumulation_boundary_def same_config_def split: if_splits)

lemma accumulation_boundary_ready:
  assumes "ready env v (lrn s)"
  shows "\<exists>s'. accumulation_boundary env s = Inr s'"
  using assms
  by (auto simp: accumulation_boundary_def ready_def split: if_splits)

lemma logging_boundary_Inr:
  assumes "logging_boundary env v s = Inr s'"
  shows "same_config (lrn s) (lrn s') \<and> t_total s' = t_total s
         \<and> global_step s' = global_step s \<and> epoch_step s' = epoch_step s
         \<and> optimizer_steps s' = optimizer_steps s
         \<and> scheduler_steps s' = scheduler_steps s
         \<and> tr_loss s' = tr_loss s \<and> logging_loss s' = tr_loss s
         \<and> epoch_loss s' = epoch_loss s"
proof (cases v)
  case False
  with assms show ?thesis
    by (auto simp: logging_boundary_def same_config_def)
next
  case True
  with assms obtain r L' where v: "validate env (lrn s) = Inr (r, L')"
    by (cases "validate env (lrn s)") (auto simp: logging_boundary_def)
  from validate_same_config [OF v] assms True v show ?thesis
    by (auto simp: logging_boundary_def)
qed

lemma logging_boundary_ready:
  assumes "ready env v (lrn s)"
  shows "\<exists>s'. logging_boundary env v s = Inr s'"
proof (cases v)
  case False
  then show ?thesis by (simp add: logging_boundary_def)
next
  case True
  with assms validate_ready [of env "lrn s"] obtain r L' where "validate env (lrn s) = Inr (r, L')"
    by auto
  with True show ?thesis by (simp add: logging_boundary_def)
qed


lemma micro_step_Inr:
  assumes "micro_step env v s (i, b) = Inr s'"
  shows "same_config (lrn s) (lrn s') \<and> t_total s' = t_total s
         \<and> grad_accumulation_steps (lrn s) \<noteq> 0
         \<and> (if (int i + 1) mod grad_accumulation_steps (lrn s) = 0
             then global_step s' = global_step s + 1 \<and> epoch_step s' = epoch_step s + 1
                  \<and> optimizer_steps s' = Suc (optimizer_steps s)
                  \<and> scheduler_steps s' = Suc (scheduler_steps s)
             else global_step s' = global_step s \<and> epoch_step s' = epoch_step s
                  \<and> optimizer_steps s' = optimizer_steps s
                  \<and> scheduler_steps s' = scheduler_steps s
                  \<and> logging_loss s' = logging_loss s \<and> tb_writer s' = tb_writer s)"
proof -
  from assms obtain l L1 where ts: "training_step env (lrn s) b = Inr (l, L1)"
    by (cases "training_step env (lrn s) b") (auto simp: micro_step_def)
  note c1 = training_step_Inr [OF ts]
  define s1 where "s1 = s\<lparr>lrn := L1, tr_loss := tr_loss s + l, epoch_loss := epoch_loss s + l\<rparr>"
  have k: "grad_accumulation_steps L1 = grad_accumulation_steps (lrn s)"
    using c1 by (simp add: same_config_def)
  have k0: "grad_accumulation_steps (lrn s) \<noteq> 0"
    using assms ts k by (auto simp: micro_step_def Let_def split: if_splits)
  show ?thesis
  proof (cases "(int i + 1) mod grad_accumulation_steps (lrn s) = 0")
    case False
    with assms ts k k0 have "s' = s1"
      by (simp add: micro_step_def Let_def s1_def)
    with c1 False k0 show ?thesis by (simp add: s1_def)
  next
    case True
    with assms ts k k0 obtain s2 where ab: "accumulation_boundary env s1 = Inr s2"
      by (cases "accumulation_boundary env s1") (auto simp: micro_step_def Let_def s1_def)
    note a = accumulation_boundary_Inr [OF ab]
    show ?thesis
    proof (cases "logging_steps (lrn s2) > 0 \<and> global_step s2 mod logging_steps (lrn s2) = 0")
      case False
      with assms ts k k0 True ab have "s' = s2"
        by (auto simp: micro_step_def Let_def s1_def)
      with a c1 True k0 show ?thesis
        by (auto simp: s1_def intro: same_config_trans)
    next
      case lg: True
      with assms ts k k0 True ab have "logging_boundary env v s2 = Inr s'"
        by (auto simp: micro_step_def Let_def s1_def)
      from logging_boundary_Inr [OF this] a c1 True k0 show ?thesis
        by (auto simp: s1_def intro: same_config_trans)
    qed
  qed
qed

lemma micro_step_ready:
  assumes "ready env v (lrn s)" and "grad_accumulation_steps (lrn s) \<noteq> 0"
  shows "\<exists>s'. micro_step env v s (i, b) = Inr s'"
proof -
  from training_step_ready [OF assms(1)] obtain l L1
    where ts: "training_step env (lrn s) b = Inr (l, L1)" by blast
  note c1 = training_step_Inr [OF ts]
  define s1 where "s1 = s\<lparr>lrn := L1, tr_loss := tr_loss s + l, epoch_loss := epoch_loss s + l\<rparr>"
  have k: "grad_accumulation_steps L1 = grad_accumulation_steps (lrn s)"
    using c1 by (simp add: same_config_def)
  have r1: "ready env v (lrn s1)"
    using ready_same_config [OF c1 assms(1)] by (simp add: s1_def)
  from accumulation_boundary_ready [OF r1] obtain s2
    where ab: "accumulation_boundary env s1 = Inr s2" by blast
  have "ready env v (lrn s2)"
    using accumulation_boundary_Inr [OF ab] r1 ready_same_config by blast
  from logging_boundary_ready [OF this] obtain s3
    where "logging_boundary env v s2 = Inr s3" by blast
  with ts k assms(2) ab show ?thesis
    by (auto simp: micro_step_def Let_def s1_def)
qed

subsection \<open>Loops over micro-batches and epochs\<close>

lemma div_succ:
  fixes a k :: int
  assumes "0 < k"
  shows "(a + 1) div k = (if (a + 1) mod k = 0 then a div k + 1 else a div k)"
proof -
  have a: "a = k * (a div k) + a mod k" by simp
  have r: "0 \<le> a mod k" "a mod k < k" using assms by simp_all
  show ?thesis
  proof (cases "a mod k = k - 1")
    case True
    then have "a + 1 = k * (a div k + 1)"
      using a by (metis add.assoc diff_add_cancel  distrib_left mult.right_neutral)
    then have "(a + 1) div k = a div k + 1" "(a + 1) mod k = 0"
      using assms by simp_all
    then show ?thesis by simp
  next
    case False
    then have lt: "a mod k + 1 < k" using r by linarith
    have "a + 1 = k * (a div k) + (a mod k + 1)" using a by linarith
    then have d: "(a + 1) div k = a div k + (a mod k + 1) div k"
       and m: "(a + 1) mod k = (a mod k + 1) mod k"
      using assms by (metis div_mult_self2 add.commute less_irrefl, metis mod_mult_self2 add.commute)
    have "(a mod k + 1) div k = 0" "(a mod k + 1) mod k = a mod k + 1"
      using lt r by (simp_all add: div_pos_pos_trivial mod_pos_pos_trivial)
    with d m r show ?thesis by simp
  qed
qed


lemma inner_loop_Inr:
  assumes "for_loop (micro_step env v) s (enumerate i xs) = Inr s'"
    and "0 < grad_accumulation_steps (lrn s)"
  shows "same_config (lrn s) (lrn s') \<and> t_total s' = t_total s
         \<and> global_step s' = global_step s
              + (int (i + length xs) div grad_accumulation_steps (lrn s)
                 - int i div grad_accumulation_steps (lrn s))
         \<and> epoch_step s' = epoch_step s
              + (int (i + length xs) div grad_accumulation_steps (lrn s)
                 - int i div grad_accumulation_steps (lrn s))
         \<and> int (optimizer_steps s') = int (optimizer_steps s)
              + (int (i + length xs) div grad_accumulation_steps (lrn s)
                 - int i div grad_accumulation_steps (lrn s))
         \<and> int (scheduler_steps s') = int (scheduler_steps s)
              + (int (i + length xs) div grad_accumulation_steps (lrn s)
                 - int i div grad_accumulation_steps (lrn s))"
  using assms
proof (induction xs arbitrary: s i)
  case Nil
  then show ?case by (simp add: same_config_refl)
next
  case (Cons x xs)
  define k where "k = grad_accumulation_steps (lrn s)"
  from Cons.prems(1) obtain s1 where ms: "micro_step env v s (i, x) = Inr s1"
    and rest: "for_loop (micro_step env v) s1 (enumerate (Suc i) xs) = Inr s'"
    by (cases "micro_step env v s (i, x)") auto
  note m = micro_step_Inr [OF ms, folded k_def]
  have k1: "grad_accumulation_steps (lrn s1) = k"
    using m by (simp add: same_config_def k_def)
  have kpos: "0 < k" using Cons.prems(2) by (simp add: k_def)
  note ih = Cons.IH [OF rest, unfolded k1, OF kpos]
  have d: "int (Suc i) div k = (if (int i + 1) mod k = 0 then int i div k + 1 else int i div k)"
    using div_succ [OF kpos, of "int i"] by (simp add: add.commute)
  have len: "int (Suc i + length xs) = int (i + length (x # xs))" by simp
  have sc: "same_config (lrn s) (lrn s')"
    using m ih same_config_trans by blast
  show ?case
    unfolding k_def [symmetric]
    using sc m ih d unfolding len
    by (auto split: if_splits)
qed

lemma inner_loop_ready:
  assumes "ready env v (lrn s)" and "grad_accumulation_steps (lrn s) \<noteq> 0"
  shows "\<exists>s'. for_loop (micro_step env v) s (enumerate i xs) = Inr s'"
  using assms
proof (induction xs arbitrary: s i)
  case Nil
  then show ?case by simp
next
  case (Cons x xs)
  from micro_step_ready [OF Cons.prems] obtain s1
    where ms: "micro_step env v s (i, x) = Inr s1" by blast
  note m = micro_step_Inr [OF ms]
  have "ready env v (lrn s1)" "grad_accumulation_steps (lrn s1) \<noteq> 0"
    using m Cons.prems ready_same_config [of "lrn s" "lrn s1"]
    by (auto simp: same_config_def)
  from Cons.IH [OF this] ms show ?case by auto
qed


lemma run_epoch_cases:
  assumes "run_epoch env v s ep = Inr s'"
  obtains s1 s2 where
    "for_loop (micro_step env v) (s\<lparr>epoch_step := 0, epoch_loss := 0\<rparr>)
       (enumerate 0 (train_dl (lrn s))) = Inr s1"
    and "if v then \<exists>r L'. validate env (lrn s1) = Inr (r, L') \<and> s' = s1\<lparr>lrn := L'\<rparr>
         else s' = s1"
    and "epoch_step s' \<noteq> 0"
  using assms
  by (auto simp: run_epoch_def Let_def split: sum.splits if_splits)

lemma run_epoch_Inr:
  assumes "run_epoch env v s ep = Inr s'"
    and "0 < grad_accumulation_steps (lrn s)"
  shows "same_config (lrn s) (lrn s') \<and> t_total s' = t_total s
         \<and> global_step s' = global_step s
              + int (length (train_dl (lrn s))) div grad_accumulation_steps (lrn s)
         \<and> epoch_step s' = int (length (train_dl (lrn s))) div grad_accumulation_steps (lrn s)
         \<and> int (optimizer_steps s') = int (optimizer_steps s)
              + int (length (train_dl (lrn s))) div grad_accumulation_steps (lrn s)
         \<and> int (scheduler_steps s') = int (scheduler_steps s)
              + int (length (train_dl (lrn s))) div grad_accumulation_steps (lrn s)"
proof -
  from assms(1) obtain s1 where
    lp: "for_loop (micro_step env v) (s\<lparr>epoch_step := 0, epoch_loss := 0\<rparr>)
       (enumerate 0 (train_dl (lrn s))) = Inr s1"
    and fin: "if v then \<exists>r L'. validate env (lrn s1) = Inr (r, L') \<and> s' = s1\<lparr>lrn := L'\<rparr>
         else s' = s1"
    by (rule run_epoch_cases)
  have il: "same_config (lrn s) (lrn s1) \<and> t_total s1 = t_total s
         \<and> global_step s1 = global_step s
              + int (length (train_dl (lrn s))) div grad_accumulation_steps (lrn s)
         \<and> epoch_step s1 = int (length (train_dl (lrn s))) div grad_accumulation_steps (lrn s)
         \<and> int (optimizer_steps s1) = int (optimizer_steps s)
              + int (length (train_dl (lrn s))) div grad_accumulation_steps (lrn s)
         \<and> int (scheduler_steps s1) = int (scheduler_steps s)
              + int (length (train_dl (lrn s))) div grad_accumulation_steps (lrn s)"
    using inner_loop_Inr [OF lp] assms(2) by simp
  show ?thesis
  proof (cases v)
    case False
    with fin il show ?thesis by simp
  next
    case True
    with fin obtain r L' where "validate env (lrn s1) = Inr (r, L')" "s' = s1\<lparr>lrn := L'\<rparr>"
      by auto
    with validate_same_config [of env "lrn s1" r L'] il show ?thesis
      by (auto intro: same_config_trans)
  qed
qed

lemma run_epoch_ready:
  assumes "ready env v (lrn s)"
    and "0 < grad_accumulation_steps (lrn s)"
    and "grad_accumulation_steps (lrn s) \<le> int (length (train_dl (lrn s)))"
  shows "\<exists>s'. run_epoch env v s ep = Inr s'"
proof -
  define s0 where "s0 = s\<lparr>epoch_step := 0, epoch_loss := 0\<rparr>"
  have "ready env v (lrn s0)" "grad_accumulation_steps (lrn s0) \<noteq> 0"
    using assms by (simp_all add: s0_def)
  from inner_loop_ready [OF this] obtain s1 where
    lp: "for_loop (micro_step env v) s0 (enumerate 0 (train_dl (lrn s))) = Inr s1"
    by blast
  have il: "same_config (lrn s) (lrn s1)"
    "epoch_step s1 = int (length (train_dl (lrn s))) div grad_accumulation_steps (lrn s)"
    using inner_loop_Inr [OF lp] assms(2) by (simp_all add: s0_def)
  have pos: "epoch_step s1 \<noteq> 0"
    using il(2) assms(2,3) pos_imp_zdiv_pos_iff [of "grad_accumulation_steps (lrn s)"
        "int (length (train_dl (lrn s)))"] by simp
  show ?thesis
  proof (cases v)
    case False
    with lp pos show ?thesis by (simp add: run_epoch_def s0_def)
  next
    case True
    have "ready env True (lrn s1)"
      using ready_same_config [OF il(1) assms(1)] True by simp
    from validate_ready [OF this] obtain r L' where "validate env (lrn s1) = Inr (r, L')"
      by blast
    with True lp pos show ?thesis by (simp add: run_epoch_def s0_def)
  qed
qed

lemma epochs_Inr:
  assumes "for_loop (run_epoch env v) s eps = Inr s'"
    and "0 < grad_accumulation_steps (lrn s)"
  shows "same_config (lrn s) (lrn s') \<and> t_total s' = t_total s
         \<and> global_step s' = global_step s + int (length eps)
              * (int (length (train_dl (lrn s))) div grad_accumulation_steps (lrn s))
         \<and> int (optimizer_steps s') = int (optimizer_steps s) + int (length eps)
              * (int (length (train_dl (lrn s))) div grad_accumulation_steps (lrn s))
         \<and> int (scheduler_steps s') = int (scheduler_steps s) + int (length eps)
              * (int (length (train_dl (lrn s))) div grad_accumulation_steps (lrn s))"
  using assms
proof (induction eps arbitrary: s)
  case Nil
  then show ?case by (simp add: same_config_refl)
next
  case (Cons ep eps)
  from Cons.prems(1) obtain s1 where re: "run_epoch env v s ep = Inr s1"
    and rest: "for_loop (run_epoch env v) s1 eps = Inr s'"
    by (cases "run_epoch env v s ep") auto
  note r = run_epoch_Inr [OF re Cons.prems(2)]
  have cfg: "grad_accumulation_steps (lrn s1) = grad_accumulation_steps (lrn s)"
    "train_dl (lrn s1) = train_dl (lrn s)"
    using r by (simp_all add: same_config_def)
  note ih = Cons.IH [OF rest, unfolded cfg, OF Cons.prems(2)]
  have sc: "same_config (lrn s) (lrn s')"
    using r ih same_config_trans by blast
  show ?case using sc r ih by (simp add: algebra_simps)
qed

lemma epochs_ready:
  assumes "ready env v (lrn s)"
    and "0 < grad_accumulation_steps (lrn s)"
    and "grad_accumulation_steps (lrn s) \<le> int (length (train_dl (lrn s)))"
  shows "\<exists>s'. for_loop (run_epoch env v) s eps = Inr s'"
  using assms
proof (induction eps arbitrary: s)
  case Nil
  then show ?case by simp
next
  case (Cons ep eps)
  from run_epoch_ready [OF Cons.prems] obtain s1 where re: "run_epoch env v s ep = Inr s1"
    by blast
  note r = run_epoch_Inr [OF re Cons.prems(2)]
  have "ready env v (lrn s1)" "0 < grad_accumulation_steps (lrn s1)"
    "grad_accumulation_steps (lrn s1) \<le> int (length (train_dl (lrn s1)))"
    using r Cons.prems ready_same_config [of "lrn s" "lrn s1"]
    by (auto simp: same_config_def)
  from Cons.IH [OF this] re show ?case by auto
qed

subsection \<open>The whole run\<close>

lemma plan_steps_Inr:
  assumes "plan_steps L e = Inr (t, L')"
  shows "train_dl L' = train_dl L \<and> grad_accumulation_steps L' = grad_accumulation_steps L
         \<and> ready env v L' = ready env v L
         \<and> t = (if max_steps L > 0 then max_steps L
                else int (length (train_dl L)) div grad_accumulation_steps L * e)
         \<and> epochs_attr L' =
             (if max_steps L > 0
              then Some (max_steps L div int (length (train_dl L)) div grad_accumulation_steps L + 1)
              else epochs_attr L)"
proof (cases "max_steps L > 0")
  case True
  with assms have "t = max_steps L"
    "L' = L\<lparr>epochs_attr := Some (max_steps L div int (length (train_dl L))
                               div grad_accumulation_steps L + 1)\<rparr>"
    by (auto simp: plan_steps_def Let_def split: if_splits)
  with True show ?thesis by (simp add: ready_def)
next
  case False
  with assms have "t = int (length (train_dl L)) div grad_accumulation_steps L * e" "L' = L"
    by (auto simp: plan_steps_def Let_def split: if_splits)
  with False show ?thesis by simp
qed

lemma plan_steps_ready:
  assumes "0 < grad_accumulation_steps L"
    and "grad_accumulation_steps L \<le> int (length (train_dl L))"
  shows "\<exists>t L'. plan_steps L e = Inr (t, L')"
  using assms
  by (auto simp: plan_steps_def Let_def)

lemma fit_runs:
  assumes "ready env v L"
    and "0 < grad_accumulation_steps L"
    and "grad_accumulation_steps L \<le> int (length (train_dl L))"
    and "1 \<le> e"
  shows "\<exists>s. fit env L e v =
             Inr ((e * (int (length (train_dl L)) div grad_accumulation_steps L),
                   tr_loss s / real_of_int (e * (int (length (train_dl L)) div grad_accumulation_steps L))),
                  s)
         \<and> global_step s = e * (int (length (train_dl L)) div grad_accumulation_steps L)
         \<and> int (optimizer_steps s) = e * (int (length (train_dl L)) div grad_accumulation_steps L)
         \<and> int (scheduler_steps s) = e * (int (length (train_dl L)) div grad_accumulation_steps L)
         \<and> t_total s = (if max_steps L > 0 then max_steps L
                         else int (length (train_dl L)) div grad_accumulation_steps L * e)
         \<and> epochs_attr (lrn s) =
             (if max_steps L > 0
              then Some (max_steps L div int (length (train_dl L)) div grad_accumulation_steps L + 1)
              else epochs_attr L)"
proof -
  define q where "q = int (length (train_dl L)) div grad_accumulation_steps L"
  from plan_steps_ready [OF assms(2,3)] obtain t L' where pl: "plan_steps L e = Inr (t, L')"
    by blast
  note p = plan_steps_Inr [OF pl, of env v]
  define s0 where "s0 = start_state L' t"
  have s0: "lrn s0 = L'" "t_total s0 = t" "global_step s0 = 0" "optimizer_steps s0 = 0"
    "scheduler_steps s0 = 0"
    by (simp_all add: s0_def start_state_def)
  have pre: "ready env v (lrn s0)" "0 < grad_accumulation_steps (lrn s0)"
    "grad_accumulation_steps (lrn s0) \<le> int (length (train_dl (lrn s0)))"
    using p assms by (simp_all add: s0)
  from epochs_ready [OF pre] obtain s where
    lp: "for_loop (run_epoch env v) s0 [0..<nat e] = Inr s" by blast
  note r = epochs_Inr [OF lp pre(2)]
  have len: "int (length [0..<nat e]) = e" using assms(4) by simp
  have g: "global_step s = e * q" "int (optimizer_steps s) = e * q"
    "int (scheduler_steps s) = e * q" "t_total s = t" "epochs_attr (lrn s) = epochs_attr L'"
    using r p unfolding len by (simp_all add: s0 q_def same_config_def)
  have "0 < q"
    using assms(2,3) pos_imp_zdiv_pos_iff [of "grad_accumulation_steps L" "int (length (train_dl L))"]
    by (simp add: q_def)
  then have "e * q \<noteq> 0" using assms(4) by simp
  with g have "fit env L e v = Inr ((e * q, tr_loss s / real_of_int (e * q)), s)"
    using pl lp by (simp add: fit_def s0_def)
  with g p show ?thesis unfolding q_def by auto
qed


text \<open>
  Claim C1 as stated fails: it promises a returned count for every accumulation factor
  \<open>k \<ge> 1\<close>, every length \<open>n\<close> and every epoch count. With one batch, \<open>k = 2\<close> and
  one epoch (no maximum set, sink present, no validation) \<^verbatim>\<open>fit\<close> returns nothing: the
  epoch ends with \<^verbatim>\<open>epoch_step = 0\<close> and \<^verbatim>\<open>epoch_loss / epoch_step\<close> raises.
\<close>

theorem fit_step_count_counterexample:
  "fit (sample_env True)
     (init (sample_env True) ((sample_args [1] [] [])\<lparr>arg_grad_accumulation_steps := 2\<rparr>) 0)
     1 False
   = Inl (ZeroDivisionError EpochAverage)"
  by (simp add: fit_def plan_steps_def start_state_def run_epoch_def micro_step_def
      training_step_def init_def sample_args_def default_args_def sample_env_def new_run_def
      enumerate_eq_zip Let_def)

text \<open>
  Claim C1, amended. With no maximum total step count set, an accumulation factor
  \<open>1 \<le> k \<le> n\<close> for a dataloader of \<open>n\<close> batches, at least one epoch \<open>e\<close>, and a learner
  that is ready (sink present, mixed precision only with its support, validation only
  over a non-empty set), \<^verbatim>\<open>fit\<close> returns \<open>e * (n div k)\<close> as its first result, has
  called the optimizer step and the scheduler step that many times, and has handed the
  same number to the scheduler factory as \<open>t_total\<close>. The \<open>n mod k\<close> batches left over in
  an epoch add no step.
\<close>

theorem fit_step_count:
  assumes "ready env v L"
    and "1 \<le> grad_accumulation_steps L"
    and "grad_accumulation_steps L \<le> int (length (train_dl L))"
    and "1 \<le> e"
    and "max_steps L \<le> 0"
  shows "\<exists>s. fit env L e v =
             Inr ((e * (int (length (train_dl L)) div grad_accumulation_steps L),
                   tr_loss s / real_of_int (e * (int (length (train_dl L)) div grad_accumulation_steps L))),
                  s)
         \<and> int (optimizer_steps s) = e * (int (length (train_dl L)) div grad_accumulation_steps L)
         \<and> int (scheduler_steps s) = e * (int (length (train_dl L)) div grad_accumulation_steps L)
         \<and> t_total s = e * (int (length (train_dl L)) div grad_accumulation_steps L)"
proof -
  have "0 < grad_accumulation_steps L" using assms(2) by simp
  from fit_runs [OF assms(1) this assms(3,4)] assms(5) show ?thesis
    by (auto simp: mult.commute)
qed


text \<open>
  Claim C1, amended, on the scenario of the specification: 100 batches, accumulation
  factor 4, one epoch give 25 optimizer steps and 25 scheduler steps.
\<close>

theorem fit_step_count_witness:
  "ready (sample_env True) True
     (init (sample_env True)
        ((sample_args (replicate 100 1) [2] [])\<lparr>arg_grad_accumulation_steps := 4\<rparr>) 0)
   \<and> (\<exists>s. fit (sample_env True)
            (init (sample_env True)
               ((sample_args (replicate 100 1) [2] [])\<lparr>arg_grad_accumulation_steps := 4\<rparr>) 0)
            1 True
          = Inr ((25, tr_loss s / 25), s)
        \<and> int (optimizer_steps s) = 25 \<and> int (scheduler_steps s) = 25 \<and> t_total s = 25)"
  using fit_step_count [of "sample_env True" True
      "init (sample_env True)
         ((sample_args (replicate 100 1) [2] [])\<lparr>arg_grad_accumulation_steps := 4\<rparr>) 0" 1]
  by (simp add: ready_def init_def sample_args_def default_args_def sample_env_def)

text \<open>
  Claim C2 on the code. With \<^verbatim>\<open>max_steps = 1\<close>, two batches, accumulation factor 1 and
  \<^verbatim>\<open>epochs = 3\<close>, the head of \<^verbatim>\<open>fit\<close> hands 1 to the scheduler factory and stores
  \<^verbatim>\<open>self.epochs = 1\<close>, but the loop runs over \<^verbatim>\<open>range(epochs)\<close>: \<^verbatim>\<open>fit\<close> returns after
  6 optimizer steps, 5 more than the maximum, where an epoch has 2.
\<close>

theorem fit_ignores_max_steps:
  "fit_returned (sample_env True)
     ((init (sample_env True) (sample_args [1, 1] [] []) 0)\<lparr>max_steps := 1\<rparr>) 3 False
   = Inr (6, 1)
   \<and> plan_steps ((init (sample_env True) (sample_args [1, 1] [] []) 0)\<lparr>max_steps := 1\<rparr>) 3
     = Inr (1, (init (sample_env True) (sample_args [1, 1] [] []) 0)
                 \<lparr>max_steps := 1, epochs_attr := Some 1\<rparr>)"
  by (simp add: fit_returned_def fit_def plan_steps_def start_state_def run_epoch_def
      micro_step_def training_step_def accumulation_boundary_def
      init_def sample_args_def default_args_def sample_env_def new_run_def
      enumerate_eq_zip Let_def eval_nat_numeral upt_rec)

subsection \<open>An epoch without a full accumulation window\<close>

lemma run_epoch_short:
  assumes "int (length (train_dl (lrn s))) < grad_accumulation_steps (lrn s)"
  shows "\<exists>err. run_epoch env v s ep = Inl err"
proof (cases "run_epoch env v s ep")
  case (Inl err)
  then show ?thesis by blast
next
  case (Inr s')
  have kpos: "0 < grad_accumulation_steps (lrn s)" using assms by linarith
  have "epoch_step s' \<noteq> 0" using Inr by (rule run_epoch_cases)
  moreover have "epoch_step s' = 0"
    using run_epoch_Inr [OF Inr kpos] assms by (simp add: div_pos_pos_trivial)
  ultimately show ?thesis by simp
qed

lemma run_epoch_short_ready:
  assumes "int (length (train_dl (lrn s))) < grad_accumulation_steps (lrn s)"
    and "ready env v (lrn s)"
  shows "run_epoch env v s ep = Inl (ZeroDivisionError EpochAverage)"
proof -
  have kpos: "0 < grad_accumulation_steps (lrn s)" using assms(1) by linarith
  define s0 where "s0 = s\<lparr>epoch_step := 0, epoch_loss := 0\<rparr>"
  have pre: "ready env v (lrn s0)" "grad_accumulation_steps (lrn s0) \<noteq> 0"
    using assms kpos by (simp_all add: s0_def)
  from inner_loop_ready [OF pre] obtain s1 where
    lp: "for_loop (micro_step env v) s0 (enumerate 0 (train_dl (lrn s))) = Inr s1"
    by blast
  have il: "same_config (lrn s) (lrn s1)" "epoch_step s1 = 0"
    using inner_loop_Inr [OF lp] kpos assms(1) by (simp_all add: s0_def div_pos_pos_trivial)
  show ?thesis
  proof (cases v)
    case False
    with lp il show ?thesis by (simp add: run_epoch_def s0_def)
  next
    case True
    have "ready env True (lrn s1)"
      using ready_same_config [OF il(1) assms(2)] True by simp
    from validate_ready [OF this] obtain r L' where "validate env (lrn s1) = Inr (r, L')"
      by blast
    with True lp il show ?thesis by (simp add: run_epoch_def s0_def)
  qed
qed

lemma upt_nat_Cons: "1 \<le> e \<Longrightarrow> [0..<nat e] = 0 # [1..<nat e]"
  by (simp add: upt_conv_Cons)

lemma plan_steps_ok:
  assumes "0 < grad_accumulation_steps L"
    and "max_steps L \<le> 0 \<or> train_dl L \<noteq> []"
  shows "\<exists>t L'. plan_steps L e = Inr (t, L')"
proof (cases "max_steps L > 0")
  case True
  with assms show ?thesis by (simp add: plan_steps_def Let_def)
next
  case False
  with assms show ?thesis by (simp add: plan_steps_def Let_def)
qed

text \<open>
  Claim C6. When the dataloader has fewer batches than the accumulation factor, no
  accumulation window completes in an epoch: from any state the epoch ends in an
  exception, and so does every \<^verbatim>\<open>fit\<close> of at least one epoch. On a ready learner
  (where the training steps and the validation themselves do not raise) the exception
  is the division by zero of \<^verbatim>\<open>epoch_loss / epoch_step\<close> in the epoch-end logging; the
  one case where \<^verbatim>\<open>fit\<close> stops earlier is an empty dataloader under a set maximum,
  where the head of \<^verbatim>\<open>fit\<close> already divides by zero.
\<close>

theorem epoch_without_window_fails:
  assumes "int (length (train_dl (lrn s))) < grad_accumulation_steps (lrn s)"
    and "int (length (train_dl L)) < grad_accumulation_steps L"
    and "1 \<le> e"
  shows "(\<exists>err. run_epoch env v s ep = Inl err)
         \<and> (if ready env v (lrn s)
             then run_epoch env v s ep = Inl (ZeroDivisionError EpochAverage) else True)
         \<and> (\<exists>err. fit env L e v = Inl err)
         \<and> (if ready env v L
             then if max_steps L \<le> 0 \<or> train_dl L \<noteq> []
                  then fit env L e v = Inl (ZeroDivisionError EpochAverage)
                  else fit env L e v = Inl (ZeroDivisionError EpochsFromMaxSteps)
             else True)"
proof -
  have short: "int (length (train_dl (lrn (start_state L' t'))))
                 < grad_accumulation_steps (lrn (start_state L' t'))"
    if "train_dl L' = train_dl L" "grad_accumulation_steps L' = grad_accumulation_steps L"
    for L' t'
    using assms(2) that by (simp add: start_state_def)
  have a: "\<exists>err. run_epoch env v s ep = Inl err"
    using assms(1) by (rule run_epoch_short)
  have b: "\<exists>err. fit env L e v = Inl err"
  proof (cases "plan_steps L e")
    case (Inl err)
    then show ?thesis by (simp add: fit_def)
  next
    case (Inr plan)
    then have p: "plan_steps L e = Inr (fst plan, snd plan)" by simp
    note pp = plan_steps_Inr [OF p, of env v]
    have "int (length (train_dl (lrn (start_state (snd plan) (fst plan)))))
                 < grad_accumulation_steps (lrn (start_state (snd plan) (fst plan)))"
      by (rule short) (simp_all add: pp)
    from run_epoch_short [OF this, of env v 0]
    obtain err where "run_epoch env v (start_state (snd plan) (fst plan)) 0 = Inl err"
      by blast
    then show ?thesis
      using Inr upt_nat_Cons [OF assms(3)] by (simp add: fit_def)
  qed
  have c: "run_epoch env v s ep = Inl (ZeroDivisionError EpochAverage)"
    if "ready env v (lrn s)"
    using assms(1) that by (rule run_epoch_short_ready)
  have d: "fit env L e v = Inl (ZeroDivisionError EpochAverage)"
    if r: "ready env v L" and m: "max_steps L \<le> 0 \<or> train_dl L \<noteq> []"
  proof -
    have kpos: "0 < grad_accumulation_steps L" using assms(2) by linarith
    from plan_steps_ok [OF kpos m] obtain tt L' where p: "plan_steps L e = Inr (tt, L')"
      by blast
    note pp = plan_steps_Inr [OF p, of env v]
    have "run_epoch env v (start_state L' tt) 0 = Inl (ZeroDivisionError EpochAverage)"
    proof (rule run_epoch_short_ready)
      show "int (length (train_dl (lrn (start_state L' tt))))
            < grad_accumulation_steps (lrn (start_state L' tt))"
        by (rule short) (simp_all add: pp)
      show "ready env v (lrn (start_state L' tt))"
        using pp r by (simp add: start_state_def)
    qed
    then show ?thesis
      using p upt_nat_Cons [OF assms(3)] by (simp add: fit_def)
  qed
  have e: "fit env L e v = Inl (ZeroDivisionError EpochsFromMaxSteps)"
    if "\<not> (max_steps L \<le> 0 \<or> train_dl L \<noteq> [])"
    using that by (simp add: fit_def plan_steps_def)
  from a b c d e show ?thesis by simp
qed

text \<open>
  Claim C6 at two batches and accumulation factor 3, with validation.
\<close>

theorem epoch_without_window_fails_witness:
  "int (length [1::real, 1]) < 3
   \<and> run_epoch (sample_env True) True
        (start_state (init (sample_env True)
           ((sample_args [1, 1] [2] [])\<lparr>arg_grad_accumulation_steps := 3\<rparr>) 0) 0) 0
       = Inl (ZeroDivisionError EpochAverage)
   \<and> fit (sample_env True)
        (init (sample_env True)
           ((sample_args [1, 1] [2] [])\<lparr>arg_grad_accumulation_steps := 3\<rparr>) 0) 1 True
       = Inl (ZeroDivisionError EpochAverage)"
  using epoch_without_window_fails [of
      "start_state (init (sample_env True)
           ((sample_args [1, 1] [2] [])\<lparr>arg_grad_accumulation_steps := 3\<rparr>) 0) 0"
      "init (sample_env True)
           ((sample_args [1, 1] [2] [])\<lparr>arg_grad_accumulation_steps := 3\<rparr>) 0"
      1 "sample_env True" True 0]
  by (simp add: ready_def init_def sample_args_def default_args_def sample_env_def
      start_state_def)

subsection \<open>Precision fallback\<close>

text \<open>
  Without the fallback, a learner built by the constructor itself with mixed precision
  requested and no support raises in its first training step.
\<close>

lemma init_without_fallback:
  assumes "\<not> IS_AMP_AVAILABLE env" and "arg_is_fp16 a"
  shows "training_step env (init env a mdl) b = Inl NameError"
  using assms by (simp add: training_step_def init_def)

text \<open>
  Claim C7. When mixed precision is requested of \<^verbatim>\<open>from_pretrained_model\<close> and its
  support is unavailable, the learner is built as if full precision had been requested
  (\<^verbatim>\<open>is_fp16\<close> false, no scaler) and nothing is raised; no training step of it raises for
  the missing \<^verbatim>\<open>autocast\<close> or scaler, and where a full-precision run has what it needs
  (sink present, \<open>1 \<le> k \<le> n\<close>, at least one epoch, validation only over a non-empty
  set) \<^verbatim>\<open>fit\<close> returns.
\<close>

theorem precision_fallback:
  assumes "\<not> IS_AMP_AVAILABLE env"
    and "arg_is_fp16 a"
    and "arg_model_type a \<in> set MODEL_CLASSES"
  shows "\<exists>L. from_pretrained_model env a p = Inr L
             \<and> L = init env (a\<lparr>arg_is_fp16 := False\<rparr>) (load_pretrained env p)
             \<and> \<not> is_fp16 L \<and> scaler L = None
             \<and> training_step env L b \<noteq> Inl NameError
             \<and> training_step env L b \<noteq> Inl AttributeError
             \<and> (if arg_neptune_run a \<noteq> None
                    \<and> 1 \<le> arg_grad_accumulation_steps a
                    \<and> arg_grad_accumulation_steps a \<le> int (length (arg_train_dl a))
                    \<and> 1 \<le> e
                    \<and> (if v then arg_val_dl a \<noteq> [] else True)
                 then \<exists>res. fit env L e v = Inr res
                 else True)"
proof -
  define L where "L = init env (a\<lparr>arg_is_fp16 := False\<rparr>) (load_pretrained env p)"
  have fp: "from_pretrained_model env a p = Inr L"
    using assms by (simp add: from_pretrained_model_def L_def)
  have f: "\<not> is_fp16 L" "scaler L = None"
    by (simp_all add: L_def init_def)
  have ts: "training_step env L b \<noteq> Inl NameError" "training_step env L b \<noteq> Inl AttributeError"
    using f by (auto simp: training_step_def Let_def split: option.splits)
  have run: "\<exists>res. fit env L e v = Inr res"
    if "arg_neptune_run a \<noteq> None" "1 \<le> arg_grad_accumulation_steps a"
      "arg_grad_accumulation_steps a \<le> int (length (arg_train_dl a))" "1 \<le> e"
      "if v then arg_val_dl a \<noteq> [] else True"
  proof -
    have "ready env v L"
      using that f by (simp add: ready_def L_def init_def)
    moreover have "0 < grad_accumulation_steps L"
      "grad_accumulation_steps L \<le> int (length (train_dl L))"
      using that by (simp_all add: L_def init_def)
    ultimately show ?thesis
      using fit_runs [of env v L e] that(4) by blast
  qed
  from fp f ts run show ?thesis
    unfolding L_def [symmetric] by simp
qed

text \<open>
  Claim C7 with the constructor's defaults (mixed precision requested), no support, a
  sink, two training batches and one validation batch.
\<close>

theorem precision_fallback_witness:
  "(\<exists>L. from_pretrained_model (sample_env False)
           ((default_args [1, 1] [2] ''bert'' [])\<lparr>arg_neptune_run := Some new_run\<rparr>) ''path'' = Inr L
        \<and> \<not> is_fp16 L \<and> scaler L = None
        \<and> (\<exists>res. fit (sample_env False) L 1 True = Inr res))"
  using precision_fallback [of "sample_env False"
      "(default_args [1, 1] [2] ''bert'' [])\<lparr>arg_neptune_run := Some new_run\<rparr>"
      "''path''" 1 1 True]
  by (simp add: default_args_def sample_env_def MODEL_CLASSES_def)

subsection \<open>The global step counter\<close>

lemma loop_trace_steps:
  assumes "(s, x, s') \<in> set (loop_trace body s0 xs)"
  shows "body s x = Inr s'"
  using assms
  by (induction xs arbitrary: s0) (auto split: sum.splits)

lemma inner_trace_config:
  assumes "(s, x, s') \<in> set (loop_trace (micro_step env v) s0 xs)"
  shows "same_config (lrn s0) (lrn s)"
  using assms
proof (induction xs arbitrary: s0)
  case Nil
  then show ?case by simp
next
  case (Cons y ys)
  show ?case
  proof (cases "micro_step env v s0 y")
    case (Inl e)
    with Cons.prems show ?thesis by simp
  next
    case (Inr s1)
    then have c: "same_config (lrn s0) (lrn s1)"
      using micro_step_Inr [of env v s0 "fst y" "snd y" s1] by simp
    from Cons.prems Inr consider "(s, x, s') = (s0, y, s1)"
      | "(s, x, s') \<in> set (loop_trace (micro_step env v) s1 ys)" by auto
    then show ?thesis
    proof cases
      case 1
      then show ?thesis by (simp add: same_config_refl)
    next
      case 2
      from Cons.IH [OF this] c show ?thesis by (rule same_config_trans [rotated])
    qed
  qed
qed

lemma for_loop_config:
  assumes "for_loop (micro_step env v) s xs = Inr s'"
  shows "same_config (lrn s) (lrn s')"
  using assms
proof (induction xs arbitrary: s)
  case Nil
  then show ?case by (simp add: same_config_refl)
next
  case (Cons y ys)
  from Cons.prems obtain s1 where ms: "micro_step env v s y = Inr s1"
    and rest: "for_loop (micro_step env v) s1 ys = Inr s'"
    by (cases "micro_step env v s y") auto
  have "same_config (lrn s) (lrn s1)"
    using micro_step_Inr [of env v s "fst y" "snd y" s1] ms by simp
  with Cons.IH [OF rest] show ?case by (rule same_config_trans [rotated])
qed

lemma run_epoch_config:
  assumes "run_epoch env v s ep = Inr s'"
  shows "same_config (lrn s) (lrn s')"
proof -
  from assms obtain s2 where
    lp: "for_loop (micro_step env v) (s\<lparr>epoch_step := 0, epoch_loss := 0\<rparr>)
           (enumerate 0 (train_dl (lrn s))) = Inr s2"
    and fin: "if v then \<exists>r L'. validate env (lrn s2) = Inr (r, L') \<and> s' = s2\<lparr>lrn := L'\<rparr>
              else s' = s2"
    by (rule run_epoch_cases)
  have a: "same_config (lrn s) (lrn s2)"
    using for_loop_config [OF lp] by simp
  show ?thesis
  proof (cases v)
    case False
    with fin a show ?thesis by simp
  next
    case True
    with fin obtain r L' where "validate env (lrn s2) = Inr (r, L')" "s' = s2\<lparr>lrn := L'\<rparr>"
      by auto
    with validate_same_config [of env "lrn s2" r L'] a show ?thesis
      by (auto intro: same_config_trans)
  qed
qed

lemma epochs_trace_steps:
  assumes "(s, x, s') \<in> set (epochs_trace env v s0 eps)"
  shows "micro_step env v s x = Inr s' \<and> same_config (lrn s0) (lrn s)"
  using assms
proof (induction eps arbitrary: s0)
  case Nil
  then show ?case by simp
next
  case (Cons ep eps)
  define s00 where "s00 = s0\<lparr>epoch_step := 0, epoch_loss := 0\<rparr>"
  have "(s, x, s') \<in> set (loop_trace (micro_step env v) s00 (enumerate 0 (train_dl (lrn s0))))
        \<or> (\<exists>s1. run_epoch env v s0 ep = Inr s1 \<and> (s, x, s') \<in> set (epochs_trace env v s1 eps))"
    using Cons.prems by (cases "run_epoch env v s0 ep") (auto simp: s00_def)
  then consider
    (inner) "(s, x, s') \<in> set (loop_trace (micro_step env v) s00 (enumerate 0 (train_dl (lrn s0))))"
    | (later) s1 where "run_epoch env v s0 ep = Inr s1" "(s, x, s') \<in> set (epochs_trace env v s1 eps)"
    by blast
  then show ?case
  proof cases
    case inner
    from loop_trace_steps [OF inner] inner_trace_config [OF inner] show ?thesis
      by (simp add: s00_def)
  next
    case later
    have c: "same_config (lrn s0) (lrn s1)"
      using later(1) by (rule run_epoch_config)
    from Cons.IH [OF later(2)] c show ?thesis
      by (auto intro: same_config_trans)
  qed
qed


lemma inner_count:
  assumes "for_loop (micro_step env v) s xs = Inr s'"
  shows "global_step s' = global_step s
           + int (length (filter (at_boundary (grad_accumulation_steps (lrn s)))
                            (loop_trace (micro_step env v) s xs)))"
  using assms
proof (induction xs arbitrary: s)
  case Nil
  then show ?case by simp
next
  case (Cons y ys)
  from Cons.prems obtain s1 where ms: "micro_step env v s y = Inr s1"
    and rest: "for_loop (micro_step env v) s1 ys = Inr s'"
    by (cases "micro_step env v s y") auto
  have m: "micro_step env v s (fst y, snd y) = Inr s1" using ms by simp
  note st = micro_step_Inr [OF m]
  have k: "grad_accumulation_steps (lrn s1) = grad_accumulation_steps (lrn s)"
    using st by (simp add: same_config_def)
  from Cons.IH [OF rest] k st ms show ?case
    by (auto simp: at_boundary_def)
qed

lemma epochs_count:
  assumes "for_loop (run_epoch env v) s eps = Inr s'"
  shows "global_step s' = global_step s
           + int (length (filter (at_boundary (grad_accumulation_steps (lrn s)))
                            (epochs_trace env v s eps)))"
  using assms
proof (induction eps arbitrary: s)
  case Nil
  then show ?case by simp
next
  case (Cons ep eps)
  from Cons.prems obtain s1 where re: "run_epoch env v s ep = Inr s1"
    and rest: "for_loop (run_epoch env v) s1 eps = Inr s'"
    by (cases "run_epoch env v s ep") auto
  from re obtain s2 where
    lp: "for_loop (micro_step env v) (s\<lparr>epoch_step := 0, epoch_loss := 0\<rparr>)
           (enumerate 0 (train_dl (lrn s))) = Inr s2"
    and fin: "if v then \<exists>r L'. validate env (lrn s2) = Inr (r, L') \<and> s1 = s2\<lparr>lrn := L'\<rparr>
              else s1 = s2"
    by (rule run_epoch_cases)
  have g: "global_step s1 = global_step s2"
    using fin by (cases v) auto
  have k: "grad_accumulation_steps (lrn s1) = grad_accumulation_steps (lrn s)"
    using run_epoch_config [OF re] by (simp add: same_config_def)
  from inner_count [OF lp] Cons.IH [OF rest] g k re show ?case
    by simp
qed

lemma inner_chained:
  assumes "\<And>s'. for_loop body s xs = Inr s' \<Longrightarrow> chained (global_step s') B"
    and "\<And>err. for_loop body s xs = Inl err \<Longrightarrow> B = []"
  shows "chained (global_step s) (loop_trace body s xs @ B)"
  using assms
proof (induction xs arbitrary: s)
  case Nil
  then show ?case by simp
next
  case (Cons x xs)
  show ?case
  proof (cases "body s x")
    case (Inl err)
    with Cons.prems(2) [of err] show ?thesis by simp
  next
    case (Inr s1)
    have "chained (global_step s1) (loop_trace body s1 xs @ B)"
    proof (rule Cons.IH)
      fix s' assume "for_loop body s1 xs = Inr s'"
      with Inr show "chained (global_step s') B" by (intro Cons.prems(1)) simp
    next
      fix err assume "for_loop body s1 xs = Inl err"
      with Inr show "B = []" by (intro Cons.prems(2) [of err]) simp
    qed
    with Inr show ?thesis by simp
  qed
qed

lemma epochs_chained: "chained (global_step s) (epochs_trace env v s eps)"
proof (induction eps arbitrary: s)
  case Nil
  show ?case by simp
next
  case (Cons ep eps)
  define s0 where "s0 = s\<lparr>epoch_step := 0, epoch_loss := 0\<rparr>"
  define T2 where "T2 = (case run_epoch env v s ep of Inl e \<Rightarrow> []
                         | Inr s' \<Rightarrow> epochs_trace env v s' eps)"
  have "chained (global_step s0)
          (loop_trace (micro_step env v) s0 (enumerate 0 (train_dl (lrn s))) @ T2)"
  proof (rule inner_chained)
    fix s2 assume lp: "for_loop (micro_step env v) s0 (enumerate 0 (train_dl (lrn s))) = Inr s2"
    show "chained (global_step s2) T2"
    proof (cases "run_epoch env v s ep")
      case (Inl err)
      then show ?thesis by (simp add: T2_def)
    next
      case (Inr s1)
      from Inr obtain s2' where
        lp': "for_loop (micro_step env v) s0 (enumerate 0 (train_dl (lrn s))) = Inr s2'"
        and fin: "if v then \<exists>r L'. validate env (lrn s2') = Inr (r, L') \<and> s1 = s2'\<lparr>lrn := L'\<rparr>
                  else s1 = s2'"
        unfolding s0_def by (rule run_epoch_cases)
      from lp lp' have "s2' = s2" by simp
      with fin have "global_step s1 = global_step s2" by (cases v) auto
      with Cons.IH [of s1] Inr show ?thesis by (simp add: T2_def)
    qed
  next
    fix err assume "for_loop (micro_step env v) s0 (enumerate 0 (train_dl (lrn s))) = Inl err"
    then have "run_epoch env v s ep = Inl err"
      by (simp add: run_epoch_def s0_def)
    then show "T2 = []" by (simp add: T2_def)
  qed
  then show ?case by (simp add: s0_def T2_def)
qed

lemma fit_chained: "chained 0 (fit_trace env L e v)"
proof (cases "plan_steps L e")
  case (Inl err)
  then show ?thesis by (simp add: fit_trace_def)
next
  case (Inr plan)
  with epochs_chained [of "start_state (snd plan) (fst plan)" env v "[0..<nat e]"]
  show ?thesis by (simp add: fit_trace_def start_state_def)
qed

text \<open>
  Claim C8. Every micro-step of every run of \<^verbatim>\<open>fit\<close> (failed runs included, up to the
  exception) leaves \<^verbatim>\<open>global_step\<close> one higher when its index is one short of a
  multiple of the accumulation factor, and unchanged otherwise; and nothing else moves
  the counter: it starts at 0, each micro-step finds it where the one before left it,
  and the count \<^verbatim>\<open>fit\<close> returns is the number of micro-steps at an accumulation
  boundary.
\<close>

theorem global_step_only_at_boundaries:
  "(\<forall>tr \<in> set (fit_trace env L e v).
      micro_step env v (fst tr) (fst (snd tr)) = Inr (snd (snd tr))
      \<and> global_step (snd (snd tr))
          = (if at_boundary (grad_accumulation_steps L) tr
             then global_step (fst tr) + 1 else global_step (fst tr)))
   \<and> chained 0 (fit_trace env L e v)
   \<and> (\<forall>g avg sf. fit env L e v = Inr ((g, avg), sf) \<longrightarrow>
         g = int (length (filter (at_boundary (grad_accumulation_steps L))
                            (fit_trace env L e v))))"
proof (cases "plan_steps L e")
  case (Inl err)
  then show ?thesis by (simp add: fit_trace_def fit_def)
next
  case (Inr plan)
  then have p: "plan_steps L e = Inr (fst plan, snd plan)" by simp
  note pp = plan_steps_Inr [OF p, of env v]
  define s0 where "s0 = start_state (snd plan) (fst plan)"
  have s0: "grad_accumulation_steps (lrn s0) = grad_accumulation_steps L" "global_step s0 = 0"
    using pp by (simp_all add: s0_def start_state_def)
  have T: "fit_trace env L e v = epochs_trace env v s0 [0..<nat e]"
    using Inr by (simp add: fit_trace_def s0_def)
  have a: "micro_step env v (fst tr) (fst (snd tr)) = Inr (snd (snd tr))
      \<and> global_step (snd (snd tr))
          = (if at_boundary (grad_accumulation_steps L) tr
             then global_step (fst tr) + 1 else global_step (fst tr))"
    if "tr \<in> set (fit_trace env L e v)" for tr
  proof -
    obtain s i b s' where tr: "tr = (s, (i, b), s')" by (metis prod.collapse)
    with that T have "(s, (i, b), s') \<in> set (epochs_trace env v s0 [0..<nat e])" by simp
    from epochs_trace_steps [OF this]
    have ms: "micro_step env v s (i, b) = Inr s'" and c: "same_config (lrn s0) (lrn s)"
      by simp_all
    have "grad_accumulation_steps (lrn s) = grad_accumulation_steps L"
      using c s0 by (simp add: same_config_def)
    with micro_step_Inr [OF ms] ms show ?thesis
      by (auto simp: tr at_boundary_def)
  qed
  have b: "g = int (length (filter (at_boundary (grad_accumulation_steps L))
                            (fit_trace env L e v)))"
    if "fit env L e v = Inr ((g, avg), sf)" for g avg sf
  proof -
    from that Inr have lp: "for_loop (run_epoch env v) s0 [0..<nat e] = Inr sf"
      and g: "g = global_step sf"
      by (auto simp: fit_def s0_def split: sum.splits if_splits)
    from epochs_count [OF lp] g s0 T show ?thesis by simp
  qed
  from a b fit_chained [of env L e v] show ?thesis by blast
qed


text \<open>
  Claim C8 at three batches and accumulation factor 2: one boundary, one step.
\<close>

theorem global_step_only_at_boundaries_witness:
  "fit_returned (sample_env True)
     (init (sample_env True)
        ((sample_args [1, 1, 1] [] [])\<lparr>arg_grad_accumulation_steps := 2\<rparr>) 0) 1 False
     = Inr (1, 3 / 2)
   \<and> int (length (filter (at_boundary 2)
         (fit_trace (sample_env True)
            (init (sample_env True)
               ((sample_args [1, 1, 1] [] [])\<lparr>arg_grad_accumulation_steps := 2\<rparr>) 0) 1 False)))
     = 1"
proof -
  define L where "L = init (sample_env True)
        ((sample_args [1, 1, 1] [] [])\<lparr>arg_grad_accumulation_steps := 2\<rparr>) 0"
  have k: "grad_accumulation_steps L = 2"
    by (simp add: L_def init_def sample_args_def default_args_def)
  have r: "fit_returned (sample_env True) L 1 False = Inr (1, 3 / 2)"
    by (simp add: L_def fit_returned_def fit_def plan_steps_def start_state_def run_epoch_def
      micro_step_def training_step_def accumulation_boundary_def
      init_def sample_args_def default_args_def sample_env_def new_run_def
      enumerate_eq_zip Let_def eval_nat_numeral upt_rec)
  then obtain sf where "fit (sample_env True) L 1 False = Inr ((1, 3 / 2), sf)"
    by (auto simp: fit_returned_def split: sum.splits)
  with global_step_only_at_boundaries [of "sample_env True" L 1 False]
  have "1 = int (length (filter (at_boundary (grad_accumulation_steps L))
                            (fit_trace (sample_env True) L 1 False)))"
    by blast
  with r k show ?thesis unfolding L_def by simp
qed

subsection \<open>The logged training loss\<close>

lemma logging_boundary_written:
  assumes "logging_boundary env v s = Inr s'"
  shows "tb_writer s' \<noteq> []
         \<and> last (tb_writer s')
             = (''loss'', (tr_loss s - logging_loss s) / real_of_int (logging_steps (lrn s)),
                global_step s)"
proof (cases v)
  case False
  with assms show ?thesis
    by (auto simp: logging_boundary_def)
next
  case True
  with assms obtain r L' where vl: "validate env (lrn s) = Inr (r, L')"
    by (cases "validate env (lrn s)") (auto simp: logging_boundary_def)
  have "logging_steps L' = logging_steps (lrn s)"
    using validate_same_config [OF vl] by (simp add: same_config_def)
  with assms True vl show ?thesis
    by (auto simp: logging_boundary_def)
qed

lemma micro_step_logging:
  assumes "micro_step env v s (i, b) = Inr s'"
  shows "if at_logging_boundary (grad_accumulation_steps (lrn s)) (logging_steps (lrn s))
              (s, (i, b), s')
         then logging_loss s' = tr_loss s' \<and> tb_writer s' \<noteq> []
              \<and> last (tb_writer s')
                  = (''loss'', (tr_loss s' - logging_loss s) / real_of_int (logging_steps (lrn s)),
                     global_step s')
         else logging_loss s' = logging_loss s"
proof -
  from assms obtain l L1 where ts: "training_step env (lrn s) b = Inr (l, L1)"
    by (cases "training_step env (lrn s) b") (auto simp: micro_step_def)
  note c1 = training_step_Inr [OF ts]
  define s1 where "s1 = s\<lparr>lrn := L1, tr_loss := tr_loss s + l, epoch_loss := epoch_loss s + l\<rparr>"
  have k: "grad_accumulation_steps L1 = grad_accumulation_steps (lrn s)"
    and lg1: "logging_steps L1 = logging_steps (lrn s)"
    using c1 by (simp_all add: same_config_def)
  have k0: "grad_accumulation_steps (lrn s) \<noteq> 0"
    using micro_step_Inr [OF assms] by simp
  show ?thesis
  proof (cases "(int i + 1) mod grad_accumulation_steps (lrn s) = 0")
    case False
    with assms ts k k0 have "s' = s1"
      by (simp add: micro_step_def Let_def s1_def)
    with False show ?thesis by (simp add: s1_def at_logging_boundary_def at_boundary_def)
  next
    case True
    with assms ts k k0 obtain s2 where ab: "accumulation_boundary env s1 = Inr s2"
      by (cases "accumulation_boundary env s1") (auto simp: micro_step_def Let_def s1_def)
    note a = accumulation_boundary_Inr [OF ab]
    have lg2: "logging_steps (lrn s2) = logging_steps (lrn s)"
      using a lg1 by (simp add: same_config_def s1_def)
    show ?thesis
    proof (cases "logging_steps (lrn s2) > 0 \<and> global_step s2 mod logging_steps (lrn s2) = 0")
      case False
      with assms ts k k0 True ab have "s' = s2"
        by (auto simp: micro_step_def Let_def s1_def)
      with a False lg2 show ?thesis
        by (auto simp: s1_def at_logging_boundary_def)
    next
      case lg: True
      with assms ts k k0 True ab have lb: "logging_boundary env v s2 = Inr s'"
        by (auto simp: micro_step_def Let_def s1_def)
      note w = logging_boundary_written [OF lb]
      note f = logging_boundary_Inr [OF lb]
      have "at_logging_boundary (grad_accumulation_steps (lrn s)) (logging_steps (lrn s))
              (s, (i, b), s')"
        using True lg lg2 f by (simp add: at_logging_boundary_def at_boundary_def)
      moreover have "tr_loss s' = tr_loss s2" "logging_loss s2 = logging_loss s"
        "global_step s' = global_step s2" "logging_loss s' = tr_loss s2"
        using f a by (simp_all add: s1_def)
      ultimately show ?thesis using w lg2 by simp
    qed
  qed
qed

lemma cum_of_append_in:
  "k \<in> fst ` set xs \<Longrightarrow> cum_of (xs @ ys) k = cum_of xs k"
  unfolding cum_of_def
  by (cases "map_of xs k") (auto simp: map_of_eq_None_iff map_add_def)

lemma cum_of_append_out:
  "k \<notin> fst ` set xs \<Longrightarrow> cum_of (xs @ ys) k = cum_of ys k"
  unfolding cum_of_def
  by (simp add: map_add_def map_of_eq_None_iff [THEN iffD2])

lemma cum_of_first: "cum_of ((k, c) # ys) k = Some c"
  by (simp add: cum_of_def)

lemma window_floor:
  fixes g lg :: int
  assumes "0 < lg" and "0 \<le> g"
  shows "0 \<le> lg * (g div lg) \<and> lg * (g div lg) \<le> g"
proof -
  have "0 \<le> g div lg" using assms by (simp add: pos_imp_zdiv_nonneg_iff)
  then have "0 \<le> lg * (g div lg)" using assms by simp
  moreover have "lg * (g div lg) = g - g mod lg" by (simp add: minus_mod_eq_mult_div [symmetric])
  moreover have "0 \<le> g mod lg" using assms by simp
  ultimately show ?thesis by linarith
qed

lemma window_next:
  fixes g lg :: int
  assumes "0 < lg"
  shows "if (g + 1) mod lg = 0
         then lg * ((g + 1) div lg) = g + 1 \<and> g + 1 - lg = lg * (g div lg)
         else lg * ((g + 1) div lg) = lg * (g div lg)"
proof (cases "(g + 1) mod lg = 0")
  case True
  then have a: "lg * ((g + 1) div lg) = g + 1"
    by (metis add.right_neutral mult_div_mod_eq)
  have "(g + 1) div lg = g div lg + 1"
    using div_succ [OF assms, of g] True by simp
  with a have "lg * (g div lg) + lg = g + 1" by (simp add: algebra_simps)
  with a True show ?thesis by simp
next
  case False
  then show ?thesis using div_succ [OF assms, of g] by simp
qed


lemma micro_step_hist:
  assumes inv: "hist_inv H lg s"
    and ms: "micro_step env v s (i, b) = Inr s'"
    and lg: "lg = logging_steps (lrn s)" "0 < lg"
  shows "hist_inv (H @ [step_entry (s, (i, b), s')]) lg s'
         \<and> (if at_logging_boundary (grad_accumulation_steps (lrn s)) lg (s, (i, b), s')
             then logs_window_average (cum_of (H @ step_entry (s, (i, b), s') # R)) lg
                    (s, (i, b), s')
             else True)"
proof -
  define g where "g = global_step s"
  define k where "k = grad_accumulation_steps (lrn s)"
  define key where "key = lg * (g div lg)"
  have g0: "0 \<le> g" and keys: "fst ` set H = {0..g}"
    and ll: "cum_of H key = Some (logging_loss s)"
    using inv by (simp_all add: hist_inv_def g_def key_def)
  have key_in: "key \<in> fst ` set H"
    using window_floor [OF lg(2) g0] keys by (simp add: key_def)
  note st = micro_step_Inr [OF ms, folded k_def g_def]
  note lo = micro_step_logging [OF ms, folded k_def lg(1)]
  have ent: "step_entry (s, (i, b), s') = (global_step s', tr_loss s')"
    by (simp add: step_entry_def)
  show ?thesis
  proof (cases "(int i + 1) mod k = 0")
    case False
    then have nb: "\<not> at_logging_boundary k lg (s, (i, b), s')"
      by (simp add: at_logging_boundary_def at_boundary_def)
    from False st have g': "global_step s' = g" by simp
    from nb lo have l': "logging_loss s' = logging_loss s" by simp
    have "fst ` set (H @ [step_entry (s, (i, b), s')]) = {0..g}"
      using keys g0 by (auto simp: ent g')
    moreover have "cum_of (H @ [step_entry (s, (i, b), s')]) key = Some (logging_loss s)"
      using ll cum_of_append_in [OF key_in, of "[step_entry (s, (i, b), s')]"] by (simp only:)
    ultimately have "hist_inv (H @ [step_entry (s, (i, b), s')]) lg s'"
      using g0 by (simp add: hist_inv_def g' l' key_def)
    with nb show ?thesis by (simp add: k_def)
  next
    case True
    with st have g': "global_step s' = g + 1" by simp
    have new: "g + 1 \<notin> fst ` set H" using keys by simp
    have ks: "fst ` set (H @ [step_entry (s, (i, b), s')]) = {0..g + 1}"
      using keys g0 by (auto simp: ent g')
    note wn = window_next [OF lg(2), of g]
    show ?thesis
    proof (cases "(g + 1) mod lg = 0")
      case False
      then have nb: "\<not> at_logging_boundary k lg (s, (i, b), s')"
        by (simp add: at_logging_boundary_def g')
      with lo have l': "logging_loss s' = logging_loss s" by simp
      have "lg * ((g + 1) div lg) = key" using wn False by (simp add: key_def)
      moreover have "cum_of (H @ [step_entry (s, (i, b), s')]) key = Some (logging_loss s)"
        using ll cum_of_append_in [OF key_in, of "[step_entry (s, (i, b), s')]"] by (simp only:)
      ultimately have "hist_inv (H @ [step_entry (s, (i, b), s')]) lg s'"
        using g0 ks by (simp add: hist_inv_def g' l')
      with nb show ?thesis by (simp add: k_def)
    next
      case lgb: True
      then have b: "at_logging_boundary k lg (s, (i, b), s')"
        using True lg(2) by (simp add: at_logging_boundary_def at_boundary_def g')
      with lo have l': "logging_loss s' = tr_loss s'" and nonempty: "tb_writer s' \<noteq> []"
        and written: "last (tb_writer s')
           = (''loss'', (tr_loss s' - logging_loss s) / real_of_int lg, global_step s')"
        by simp_all
      have k1: "lg * ((g + 1) div lg) = g + 1" and k2: "g + 1 - lg = key"
        using wn lgb by (simp_all add: key_def)
      have "cum_of (H @ [step_entry (s, (i, b), s')]) (g + 1)
              = cum_of [step_entry (s, (i, b), s')] (g + 1)"
        by (rule cum_of_append_out [OF new])
      also have "\<dots> = Some (tr_loss s')"
        by (simp add: ent g' cum_of_first)
      finally have h: "hist_inv (H @ [step_entry (s, (i, b), s')]) lg s'"
        using g0 ks by (simp add: hist_inv_def g' l' k1)
      have c1: "cum_of (H @ step_entry (s, (i, b), s') # R) (g + 1 - lg) = Some (logging_loss s)"
        unfolding k2 using ll cum_of_append_in [OF key_in, of "step_entry (s, (i, b), s') # R"]
        by (simp only:)
      have "cum_of (H @ step_entry (s, (i, b), s') # R) (g + 1)
              = cum_of (step_entry (s, (i, b), s') # R) (g + 1)"
        by (rule cum_of_append_out [OF new])
      also have "\<dots> = Some (tr_loss s')"
        by (simp add: ent g' cum_of_first)
      finally have c2: "cum_of (H @ step_entry (s, (i, b), s') # R) (g + 1) = Some (tr_loss s')" .
      have "logs_window_average (cum_of (H @ step_entry (s, (i, b), s') # R)) lg (s, (i, b), s')"
        using c1 c2 nonempty written by (simp add: logs_window_average_def g')
      with h b show ?thesis by (simp add: k_def)
    qed
  qed
qed


lemma inner_trace_hist:
  assumes "hist_inv H lg s" and "lg = logging_steps (lrn s)" and "0 < lg"
  shows "(\<forall>tr \<in> set (loop_trace (micro_step env v) s xs).
            at_logging_boundary (grad_accumulation_steps (lrn s)) lg tr \<longrightarrow>
            logs_window_average
              (cum_of (H @ map step_entry (loop_trace (micro_step env v) s xs) @ R)) lg tr)
         \<and> (\<forall>s'. for_loop (micro_step env v) s xs = Inr s' \<longrightarrow>
               hist_inv (H @ map step_entry (loop_trace (micro_step env v) s xs)) lg s')"
  using assms
proof (induction xs arbitrary: s H)
  case Nil
  then show ?case by simp
next
  case (Cons y ys)
  show ?case
  proof (cases "micro_step env v s y")
    case (Inl err)
    then show ?thesis by simp
  next
    case (Inr s1)
    obtain i b where y: "y = (i, b)" by (cases y)
    with Inr have ms: "micro_step env v s (i, b) = Inr s1" by simp
    define T1 where "T1 = loop_trace (micro_step env v) s1 ys"
    define ent where "ent = step_entry (s, (i, b), s1)"
    have T: "loop_trace (micro_step env v) s (y # ys) = (s, y, s1) # T1"
      using Inr by (simp add: T1_def)
    have cfg: "logging_steps (lrn s1) = logging_steps (lrn s)"
      "grad_accumulation_steps (lrn s1) = grad_accumulation_steps (lrn s)"
      using micro_step_Inr [OF ms] by (simp_all add: same_config_def)
    from micro_step_hist [OF Cons.prems(1) ms Cons.prems(2,3), of "map step_entry T1 @ R"]
    have h1: "hist_inv (H @ [ent]) lg s1"
      and p1: "at_logging_boundary (grad_accumulation_steps (lrn s)) lg (s, y, s1) \<longrightarrow>
         logs_window_average (cum_of (H @ ent # map step_entry T1 @ R)) lg (s, y, s1)"
      by (simp_all add: ent_def y)
    have lg1: "lg = logging_steps (lrn s1)" using Cons.prems(2) cfg by simp
    from Cons.IH [OF h1 lg1 Cons.prems(3), folded T1_def, unfolded cfg]
    have ih1: "\<forall>tr \<in> set T1.
            at_logging_boundary (grad_accumulation_steps (lrn s)) lg tr \<longrightarrow>
            logs_window_average (cum_of (H @ ent # map step_entry T1 @ R)) lg tr"
      and ih2: "\<forall>s'. for_loop (micro_step env v) s1 ys = Inr s' \<longrightarrow>
               hist_inv (H @ ent # map step_entry T1) lg s'"
      by simp_all
    have e: "map step_entry ((s, y, s1) # T1) = ent # map step_entry T1"
      by (simp add: ent_def y)
    show ?thesis
      unfolding T e using p1 ih1 ih2 Inr by simp
  qed
qed

lemma hist_inv_cong:
  assumes "hist_inv H lg s" and "global_step s' = global_step s"
    and "logging_loss s' = logging_loss s"
  shows "hist_inv H lg s'"
  using assms by (simp add: hist_inv_def)

lemma epochs_trace_hist:
  assumes "hist_inv H lg s" and "lg = logging_steps (lrn s)" and "0 < lg"
  shows "\<forall>tr \<in> set (epochs_trace env v s eps).
            at_logging_boundary (grad_accumulation_steps (lrn s)) lg tr \<longrightarrow>
            logs_window_average
              (cum_of (H @ map step_entry (epochs_trace env v s eps) @ R)) lg tr"
  using assms
proof (induction eps arbitrary: s H)
  case Nil
  then show ?case by simp
next
  case (Cons ep eps)
  define s0 where "s0 = s\<lparr>epoch_step := 0, epoch_loss := 0\<rparr>"
  define T1 where "T1 = loop_trace (micro_step env v) s0 (enumerate 0 (train_dl (lrn s)))"
  define T2 where "T2 = (case run_epoch env v s ep of Inl e \<Rightarrow> []
                         | Inr s' \<Rightarrow> epochs_trace env v s' eps)"
  have T: "epochs_trace env v s (ep # eps) = T1 @ T2"
    by (simp add: T1_def T2_def s0_def)
  have h0: "hist_inv H lg s0" "lg = logging_steps (lrn s0)"
    using Cons.prems by (simp_all add: s0_def hist_inv_def)
  from inner_trace_hist [OF h0 Cons.prems(3), where env = env and v = v
      and xs = "enumerate 0 (train_dl (lrn s))" and R = "map step_entry T2 @ R", folded T1_def]
  have in1: "\<forall>tr \<in> set T1. at_logging_boundary (grad_accumulation_steps (lrn s)) lg tr \<longrightarrow>
            logs_window_average (cum_of (H @ map step_entry T1 @ map step_entry T2 @ R)) lg tr"
    and in2: "\<forall>s'. for_loop (micro_step env v) s0 (enumerate 0 (train_dl (lrn s))) = Inr s' \<longrightarrow>
               hist_inv (H @ map step_entry T1) lg s'"
    by (simp_all add: s0_def)
  have in3: "\<forall>tr \<in> set T2. at_logging_boundary (grad_accumulation_steps (lrn s)) lg tr \<longrightarrow>
            logs_window_average (cum_of (H @ map step_entry T1 @ map step_entry T2 @ R)) lg tr"
  proof (cases "run_epoch env v s ep")
    case (Inl err)
    then show ?thesis by (simp add: T2_def)
  next
    case (Inr s1)
    then have T2: "T2 = epochs_trace env v s1 eps" by (simp add: T2_def)
    from Inr obtain s2 where
      lp: "for_loop (micro_step env v) s0 (enumerate 0 (train_dl (lrn s))) = Inr s2"
      and fin: "if v then \<exists>r L'. validate env (lrn s2) = Inr (r, L') \<and> s1 = s2\<lparr>lrn := L'\<rparr>
                else s1 = s2"
      unfolding s0_def by (rule run_epoch_cases)
    have "global_step s1 = global_step s2" "logging_loss s1 = logging_loss s2"
      using fin by (cases v; auto)+
    with in2 lp have h1: "hist_inv (H @ map step_entry T1) lg s1"
      by (auto intro: hist_inv_cong)
    have cfg: "logging_steps (lrn s1) = logging_steps (lrn s)"
      "grad_accumulation_steps (lrn s1) = grad_accumulation_steps (lrn s)"
      using run_epoch_config [OF Inr] by (simp_all add: same_config_def)
    have lg1: "lg = logging_steps (lrn s1)" using Cons.prems(2) cfg by simp
    from Cons.IH [OF h1 lg1 Cons.prems(3), folded T2, unfolded cfg]
    show ?thesis by simp
  qed
  show ?case
    unfolding T using in1 in3 by auto
qed


text \<open>
  Claim C3. At every micro-step of a run that is a logging boundary (an accumulation
  boundary, with \<^verbatim>\<open>logging_steps > 0\<close>, whose global step \<open>S\<close> is a multiple of the
  logging interval), the last scalar written is the training loss at step \<open>S\<close> with the
  value (cumulative loss at \<open>S\<close> minus cumulative loss at \<open>S - logging_steps\<close>) divided by
  \<^verbatim>\<open>logging_steps\<close>, where the cumulative loss at a step is \<^verbatim>\<open>tr_loss\<close> at the moment
  the global step reached it (floats read as reals).
\<close>

theorem logged_loss_is_window_average:
  "\<forall>tr \<in> set (fit_trace env L e v).
      at_logging_boundary (grad_accumulation_steps L) (logging_steps L) tr \<longrightarrow>
      logs_window_average (cumulative_loss (fit_trace env L e v)) (logging_steps L) tr"
proof (cases "0 < logging_steps L")
  case False
  then show ?thesis by (simp add: at_logging_boundary_def)
next
  case lg: True
  show ?thesis
  proof (cases "plan_steps L e")
    case (Inl err)
    then show ?thesis by (simp add: fit_trace_def)
  next
    case (Inr plan)
    then have p: "plan_steps L e = Inr (fst plan, snd plan)" by simp
    have same: "grad_accumulation_steps (snd plan) = grad_accumulation_steps L"
      "logging_steps (snd plan) = logging_steps L"
      using p by (auto simp: plan_steps_def Let_def split: if_splits)
    define s0 where "s0 = start_state (snd plan) (fst plan)"
    have s0: "grad_accumulation_steps (lrn s0) = grad_accumulation_steps L"
      "logging_steps (lrn s0) = logging_steps L"
      using same by (simp_all add: s0_def start_state_def)
    have T: "fit_trace env L e v = epochs_trace env v s0 [0..<nat e]"
      using Inr by (simp add: fit_trace_def s0_def)
    have h: "hist_inv [(0, 0)] (logging_steps L) s0"
      by (simp add: hist_inv_def s0_def start_state_def cum_of_def)
    have lg0: "logging_steps L = logging_steps (lrn s0)" using s0 by simp
    from epochs_trace_hist [OF h lg0 lg, of env v "[0..<nat e]" "[]", unfolded s0]
    show ?thesis
      unfolding T cumulative_loss_def by simp
  qed
qed

text \<open>
  Claim C3 at two batches of losses 1 and 3, accumulation factor 1 and logging interval
  1: at step 2 the cumulative loss is 4, at step 1 it was 1, and 3 is written.
\<close>

theorem logged_loss_is_window_average_witness:
  "fit_trace (sample_env True)
      (init (sample_env True) ((sample_args [1, 3] [] [])\<lparr>arg_logging_steps := 1\<rparr>) 0)
      1 False \<noteq> []
   \<and> at_logging_boundary 1 1
       (last (fit_trace (sample_env True)
          (init (sample_env True) ((sample_args [1, 3] [] [])\<lparr>arg_logging_steps := 1\<rparr>) 0)
          1 False))
   \<and> logs_window_average
       (cumulative_loss (fit_trace (sample_env True)
          (init (sample_env True) ((sample_args [1, 3] [] [])\<lparr>arg_logging_steps := 1\<rparr>) 0)
          1 False)) 1
       (last (fit_trace (sample_env True)
          (init (sample_env True) ((sample_args [1, 3] [] [])\<lparr>arg_logging_steps := 1\<rparr>) 0)
          1 False))
   \<and> last (tb_writer (snd (snd (last (fit_trace (sample_env True)
          (init (sample_env True) ((sample_args [1, 3] [] [])\<lparr>arg_logging_steps := 1\<rparr>) 0)
          1 False)))))
       = (''loss'', 3, 2)"
proof -
  define L where "L = init (sample_env True) ((sample_args [1, 3] [] [])\<lparr>arg_logging_steps := 1\<rparr>) 0"
  define T where "T = fit_trace (sample_env True) L 1 False"
  have cfg: "grad_accumulation_steps L = 1" "logging_steps L = 1"
    by (simp_all add: L_def init_def sample_args_def default_args_def)
  have ev: "T \<noteq> []" "at_logging_boundary 1 1 (last T)"
    "last (tb_writer (snd (snd (last T)))) = (''loss'', 3, 2)"
    by (simp_all add: T_def L_def fit_trace_def plan_steps_def start_state_def run_epoch_def
      micro_step_def training_step_def accumulation_boundary_def logging_boundary_def
      at_logging_boundary_def at_boundary_def
      init_def sample_args_def default_args_def sample_env_def new_run_def
      enumerate_eq_zip Let_def eval_nat_numeral upt_rec)
  have "last T \<in> set T" using ev(1) by simp
  with logged_loss_is_window_average [of "sample_env True" L 1 False] ev(2)
  have "logs_window_average (cumulative_loss T) 1 (last T)"
    unfolding cfg T_def by blast
  with ev show ?thesis unfolding T_def L_def by simp
qed

end
